theory Spec2Isabelle
  imports Main
begin

section \<open>Data model (core/models.py)\<close>

text \<open>
  Every Django model is a record holding the columns the views read or write; a
  foreign key is the primary key of the row it points to. Tables are lists of rows
  in query order. Primary keys are natural numbers.
\<close>

datatype order_status = Pending | Completed | Cancelled

datatype transfer_status = TPending | TAccepted | TRejected

record user =
  user_id :: nat
  email :: string

record event =
  event_id :: nat
  is_active :: bool
  max_shifts_per_user :: nat

record ticket_type =
  tt_id :: nat
  tt_event :: nat
  stripe_price_id :: string
  max_per_user :: nat

record order =
  order_id :: nat
  o_ticket_type :: nat
  purchasing_user :: nat
  owning_user :: nat
  stripe_checkout_session_id :: string
  stripe_payment_intent_id :: "string option"
  o_status :: order_status

record transfer =
  transfer_id :: nat
  t_order :: nat
  from_user :: nat
  to_email :: string
  to_user :: "nat option"
  t_status :: transfer_status

record role =
  role_id :: nat
  role_event :: nat

text \<open>
  A \<open>DateTimeField\<close> is the number of microseconds since the epoch, so that the
  comparison of two datetimes is the comparison of integers.
\<close>

record shift =
  shift_id :: nat
  s_role :: nat
  start_time :: int
  end_time :: int
  capacity :: nat

record shift_assignment =
  assignment_id :: nat
  a_shift :: nat
  a_user :: nat

text \<open>One line item of the Stripe Checkout call: the price reference and the quantity.\<close>

type_synonym line_item = "string \<times> int"

text \<open>
  The world is the database together with the log of the calls made to
  \<open>stripe.checkout.Session.create\<close> (the line items and the customer email of each).
\<close>

record world =
  users :: "user list"
  events :: "event list"
  ticket_types :: "ticket_type list"
  orders :: "order list"
  transfers :: "transfer list"
  roles :: "role list"
  shift_rows :: "shift list"
  assignments :: "shift_assignment list"
  stripe_calls :: "(line_item list \<times> string) list"

text \<open>
  Every \<open>messages.error\<close> of the views, the 404 of \<open>get_object_or_404\<close> and the
  exceptions that leave a view are values of one error type. \<open>LimitExceeded\<close> carries the
  ticket type, its cap, the existing count and the remaining allowance of the message.
\<close>

datatype error =
    NoActiveEvent
  | SelectAtLeastOne
  | ValueError
  | LimitExceeded nat nat nat nat
  | StripeError
  | OverflowError
  | Http404
  | DoesNotExist
  | PendingTransferExists
  | EmailRequired
  | SelfTransfer
  | NoSuchUser
  | RecipientLimit
  | AcceptLimit
  | TicketRequired
  | ShiftLimit nat
  | AlreadySignedUp
  | ShiftFull
  | NotSignedUp

datatype outcome = Failed error | Succeeded

section \<open>Queries\<close>

text \<open>\<open>Event.get_active\<close>: \<open>filter(is_active=True).first()\<close>.\<close>

definition get_active :: "world \<Rightarrow> event option" where
  "get_active w = find is_active (events w)"

text \<open>\<open>event.ticket_types.all()\<close>.\<close>

definition event_ticket_types :: "world \<Rightarrow> event \<Rightarrow> ticket_type list" where
  "event_ticket_types w ev = filter (\<lambda>t. tt_event t = event_id ev) (ticket_types w)"

text \<open>Following a foreign key: the row with that primary key.\<close>

definition ticket_type_of :: "world \<Rightarrow> nat \<Rightarrow> ticket_type option" where
  "ticket_type_of w i = find (\<lambda>t. tt_id t = i) (ticket_types w)"

definition order_of :: "world \<Rightarrow> nat \<Rightarrow> order option" where
  "order_of w i = find (\<lambda>x. order_id x = i) (orders w)"

definition transfer_of :: "world \<Rightarrow> nat \<Rightarrow> transfer option" where
  "transfer_of w i = find (\<lambda>x. transfer_id x = i) (transfers w)"

text \<open>\<open>status__in=['completed', 'pending']\<close>.\<close>

definition counts_toward_limit :: "order \<Rightarrow> bool" where
  "counts_toward_limit x = (o_status x = Completed \<or> o_status x = Pending)"

text \<open>
  \<open>Order.objects.filter(ticket_type=t, owning_user=u, status__in=[...]).count()\<close>,
  as in \<open>transfer_ticket\<close> and \<open>accept_transfer\<close>.
\<close>

definition owned_count :: "world \<Rightarrow> nat \<Rightarrow> nat \<Rightarrow> nat" where
  "owned_count w u i =
     length (filter (\<lambda>x. o_ticket_type x = i \<and> owning_user x = u \<and> counts_toward_limit x)
               (orders w))"

text \<open>The join \<open>ticket_type__event=event\<close> of an order.\<close>

definition order_in_event :: "world \<Rightarrow> event \<Rightarrow> order \<Rightarrow> bool" where
  "order_in_event w ev x =
     (case ticket_type_of w (o_ticket_type x) of
        None \<Rightarrow> False
      | Some t \<Rightarrow> tt_event t = event_id ev)"

text \<open>
  The dictionary \<open>existing_counts\<close> of \<open>create_checkout_session\<close>: the grouped count
  has an entry only for a ticket type with at least one matching order.
\<close>

definition existing_counts :: "world \<Rightarrow> event \<Rightarrow> nat \<Rightarrow> (nat \<rightharpoonup> nat)" where
  "existing_counts w ev u = (\<lambda>i.
     let c = length (filter (\<lambda>x. order_in_event w ev x \<and> o_ticket_type x = i
                                 \<and> owning_user x = u \<and> counts_toward_limit x) (orders w))
     in if c = 0 then None else Some c)"

text \<open>\<open>d.get(k, 0)\<close>.\<close>

definition get0 :: "(nat \<rightharpoonup> nat) \<Rightarrow> nat \<Rightarrow> nat" where
  "get0 d k = (case d k of None \<Rightarrow> 0 | Some c \<Rightarrow> c)"

text \<open>The key the database gives a new row: one that no row of the table has.\<close>

definition fresh_id :: "nat list \<Rightarrow> nat" where
  "fresh_id ks = Suc (fold max ks 0)"

section \<open>Checkout (core/views.py, create_checkout_session and checkout_success)\<close>

text \<open>
  A POST parameter \<open>quantity_<id>\<close> is missing, or a text that \<open>int\<close> parses, or a text
  on which \<open>int\<close> raises \<open>ValueError\<close>. The request maps each ticket type id to the
  parameter of that name.
\<close>

datatype post_value = Missing | IntText int | BadText

fun py_int :: "post_value \<Rightarrow> error + int" where
  "py_int Missing = Inr 0"
| "py_int (IntText n) = Inr n"
| "py_int BadText = Inl ValueError"

text \<open>The first loop: the line items and one entry of \<open>tickets_to_create\<close> per unit.\<close>

fun collect_items ::
  "(nat \<Rightarrow> post_value) \<Rightarrow> ticket_type list \<Rightarrow> line_item list \<Rightarrow> ticket_type list
     \<Rightarrow> error + (line_item list \<times> ticket_type list)" where
  "collect_items post [] line_items tickets_to_create = Inr (line_items, tickets_to_create)"
| "collect_items post (t # ts) line_items tickets_to_create =
     (case py_int (post (tt_id t)) of
        Inl e \<Rightarrow> Inl e
      | Inr quantity \<Rightarrow>
          if quantity > 0
          then collect_items post ts (line_items @ [(stripe_price_id t, quantity)])
                 (tickets_to_create @ replicate (nat quantity) t)
          else collect_items post ts line_items tickets_to_create)"

text \<open>The dictionary \<open>requested_counts\<close>, one increment per ticket to create.\<close>

definition requested_counts :: "ticket_type list \<Rightarrow> (nat \<rightharpoonup> nat)" where
  "requested_counts tickets_to_create =
     fold (\<lambda>t d. d(tt_id t \<mapsto> get0 d (tt_id t) + 1)) tickets_to_create Map.empty"

text \<open>The limit loop returns at the first ticket type over its cap.\<close>

definition over_limit :: "(nat \<rightharpoonup> nat) \<Rightarrow> (nat \<rightharpoonup> nat) \<Rightarrow> ticket_type \<Rightarrow> bool" where
  "over_limit existing requested t =
     (get0 existing (tt_id t) + get0 requested (tt_id t) > max_per_user t)"

definition remaining_for :: "(nat \<rightharpoonup> nat) \<Rightarrow> ticket_type \<Rightarrow> nat" where
  "remaining_for existing t =
     nat (max 0 (int (max_per_user t) - int (get0 existing (tt_id t))))"

text \<open>\<open>Order.objects.create(...)\<close> for each ticket to create, in order.\<close>

definition create_order :: "user \<Rightarrow> string \<Rightarrow> ticket_type \<Rightarrow> order list \<Rightarrow> order list" where
  "create_order u session t os =
     os @ [\<lparr>order_id = fresh_id (map order_id os), o_ticket_type = tt_id t,
            purchasing_user = user_id u, owning_user = user_id u,
            stripe_checkout_session_id = session, stripe_payment_intent_id = None,
            o_status = Pending\<rparr>]"

definition create_orders :: "user \<Rightarrow> string \<Rightarrow> ticket_type list \<Rightarrow> order list \<Rightarrow> order list" where
  "create_orders u session tickets_to_create os =
     fold (create_order u session) tickets_to_create os"

text \<open>
  The payment gateway is a parameter: given the line items and the customer email it
  returns the id of the new session, or \<open>None\<close> when the call raises.
\<close>

type_synonym gateway = "line_item list \<Rightarrow> string \<Rightarrow> string option"

definition create_checkout_session ::
  "gateway \<Rightarrow> user \<Rightarrow> (nat \<Rightarrow> post_value) \<Rightarrow> world \<Rightarrow> outcome \<times> world" where
  "create_checkout_session stripe_create u post w =
     (case get_active w of
        None \<Rightarrow> (Failed NoActiveEvent, w)
      | Some ev \<Rightarrow>
          (case collect_items post (event_ticket_types w ev) [] [] of
             Inl e \<Rightarrow> (Failed e, w)
           | Inr (line_items, tickets_to_create) \<Rightarrow>
               if line_items = [] then (Failed SelectAtLeastOne, w)
               else
                 let existing = existing_counts w ev (user_id u);
                     requested = requested_counts tickets_to_create
                 in (case find (over_limit existing requested) (event_ticket_types w ev) of
                       Some t \<Rightarrow>
                         (Failed (LimitExceeded (tt_id t) (max_per_user t)
                                    (get0 existing (tt_id t)) (remaining_for existing t)), w)
                     | None \<Rightarrow>
                         let w1 = w\<lparr>stripe_calls := stripe_calls w @ [(line_items, email u)]\<rparr>
                         in (case stripe_create line_items (email u) of
                               None \<Rightarrow> (Failed StripeError, w1)
                             | Some session \<Rightarrow>
                                 (Succeeded,
                                  w1\<lparr>orders := create_orders u session tickets_to_create
                                                  (orders w1)\<rparr>)))))"

text \<open>
  \<open>stripe.checkout.Session.retrieve\<close> is a parameter too: the payment status and the
  payment intent of the session, or \<open>None\<close> when the call raises.
\<close>

type_synonym retrieval = "string \<Rightarrow> (string \<times> string option) option"

definition mark_paid :: "string \<Rightarrow> string option \<Rightarrow> order \<Rightarrow> order" where
  "mark_paid session_id payment_intent x =
     (if stripe_checkout_session_id x = session_id \<and> o_status x = Pending
      then x\<lparr>o_status := Completed, stripe_payment_intent_id := payment_intent\<rparr>
      else x)"

definition checkout_success :: "retrieval \<Rightarrow> string option \<Rightarrow> world \<Rightarrow> world" where
  "checkout_success stripe_retrieve session_id w =
     (case session_id of
        None \<Rightarrow> w
      | Some sid \<Rightarrow>
          if sid = [] then w
          else (case stripe_retrieve sid of
                  None \<Rightarrow> w
                | Some (payment_status, payment_intent) \<Rightarrow>
                    if payment_status = ''paid''
                    then w\<lparr>orders := map (mark_paid sid payment_intent) (orders w)\<rparr>
                    else w))"

section \<open>Transfers (core/views.py, transfer_ticket to rescind_transfer)\<close>

text \<open>
  \<open>request.POST.get('to_email', '').strip().lower()\<close> calls the string methods of the
  Python library, which know the white space and the capital letters of all of Unicode.
  They are a parameter of the model: the function that takes the text of the field to the
  trimmed, lowercased text.
\<close>

type_synonym normaliser = "string \<Rightarrow> string"

text \<open>\<open>Transfer.objects.filter(order=order, status='pending').exists()\<close>.\<close>

definition has_pending_transfer :: "world \<Rightarrow> order \<Rightarrow> bool" where
  "has_pending_transfer w x =
     list_ex (\<lambda>tr. t_order tr = order_id x \<and> t_status tr = TPending) (transfers w)"

text \<open>
  \<open>Transfer.objects.filter(to_email=e, order__ticket_type=t, status='pending').count()\<close>;
  the join goes through the order of each transfer.
\<close>

definition pending_transfers_to :: "world \<Rightarrow> string \<Rightarrow> nat \<Rightarrow> nat" where
  "pending_transfers_to w e i =
     length (filter (\<lambda>tr. to_email tr = e
                          \<and> (case order_of w (t_order tr) of
                                None \<Rightarrow> False
                              | Some x \<Rightarrow> o_ticket_type x = i)
                          \<and> t_status tr = TPending) (transfers w))"

definition transfer_ticket ::
  "normaliser \<Rightarrow> user \<Rightarrow> nat \<Rightarrow> string option \<Rightarrow> world \<Rightarrow> outcome \<times> world" where
  "transfer_ticket strip_lower u oid post_to_email w =
     (case find (\<lambda>x. order_id x = oid \<and> owning_user x = user_id u \<and> o_status x = Completed)
             (orders w) of
        None \<Rightarrow> (Failed Http404, w)
      | Some order \<Rightarrow>
          if has_pending_transfer w order then (Failed PendingTransferExists, w)
          else
            let target = strip_lower (case post_to_email of None \<Rightarrow> [] | Some s \<Rightarrow> s)
            in if target = [] then (Failed EmailRequired, w)
               else if target = email u then (Failed SelfTransfer, w)
               else (case find (\<lambda>x. email x = target) (users w) of
                       None \<Rightarrow> (Failed NoSuchUser, w)
                     | Some recipient \<Rightarrow>
                         (case ticket_type_of w (o_ticket_type order) of
                            None \<Rightarrow> (Failed DoesNotExist, w)
                          | Some tt \<Rightarrow>
                              let existing_count =
                                    owned_count w (user_id recipient) (o_ticket_type order);
                                  pending_transfers =
                                    pending_transfers_to w target (o_ticket_type order)
                              in if existing_count + pending_transfers \<ge> max_per_user tt
                                 then (Failed RecipientLimit, w)
                                 else (Succeeded,
                                       w\<lparr>transfers := transfers w @
                                           [\<lparr>transfer_id = fresh_id (map transfer_id (transfers w)),
                                             t_order = order_id order,
                                             from_user = user_id u,
                                             to_email = target,
                                             to_user = Some (user_id recipient),
                                             t_status = TPending\<rparr>]\<rparr>))))"

text \<open>\<open>Model.save()\<close> of a loaded row: the row with its primary key is overwritten.\<close>

definition save_order :: "order \<Rightarrow> world \<Rightarrow> world" where
  "save_order x w =
     w\<lparr>orders := map (\<lambda>y. if order_id y = order_id x then x else y) (orders w)\<rparr>"

definition save_transfer :: "transfer \<Rightarrow> world \<Rightarrow> world" where
  "save_transfer x w =
     w\<lparr>transfers := map (\<lambda>y. if transfer_id y = transfer_id x then x else y) (transfers w)\<rparr>"

definition accept_transfer :: "user \<Rightarrow> nat \<Rightarrow> world \<Rightarrow> outcome \<times> world" where
  "accept_transfer u tid w =
     (case find (\<lambda>x. transfer_id x = tid \<and> to_email x = email u \<and> t_status x = TPending)
             (transfers w) of
        None \<Rightarrow> (Failed Http404, w)
      | Some tr \<Rightarrow>
          (case order_of w (t_order tr) of
             None \<Rightarrow> (Failed DoesNotExist, w)
           | Some order \<Rightarrow>
               (case ticket_type_of w (o_ticket_type order) of
                  None \<Rightarrow> (Failed DoesNotExist, w)
                | Some tt \<Rightarrow>
                    let existing_count = owned_count w (user_id u) (o_ticket_type order)
                    in if existing_count \<ge> max_per_user tt then (Failed AcceptLimit, w)
                       else
                         let w1 = save_order (order\<lparr>owning_user := user_id u\<rparr>) w;
                             w2 = save_transfer
                                    (tr\<lparr>to_user := Some (user_id u), t_status := TAccepted\<rparr>) w1
                         in (Succeeded, w2))))"

text \<open>
  The views open no transaction, so each \<open>save()\<close> is committed by itself. These are the
  states the database holds after each write of \<open>accept_transfer\<close>, in order: the order
  is saved first, the transfer second; a request that is refused writes nothing.
\<close>

definition accept_transfer_commits :: "user \<Rightarrow> nat \<Rightarrow> world \<Rightarrow> world list" where
  "accept_transfer_commits u tid w =
     (case find (\<lambda>x. transfer_id x = tid \<and> to_email x = email u \<and> t_status x = TPending)
             (transfers w) of
        None \<Rightarrow> []
      | Some tr \<Rightarrow>
          (case order_of w (t_order tr) of
             None \<Rightarrow> []
           | Some order \<Rightarrow>
               (case ticket_type_of w (o_ticket_type order) of
                  None \<Rightarrow> []
                | Some tt \<Rightarrow>
                    let existing_count = owned_count w (user_id u) (o_ticket_type order)
                    in if existing_count \<ge> max_per_user tt then []
                       else
                         let w1 = save_order (order\<lparr>owning_user := user_id u\<rparr>) w;
                             w2 = save_transfer
                                    (tr\<lparr>to_user := Some (user_id u), t_status := TAccepted\<rparr>) w1
                         in [w1, w2])))"

definition reject_transfer :: "user \<Rightarrow> nat \<Rightarrow> world \<Rightarrow> outcome \<times> world" where
  "reject_transfer u tid w =
     (case find (\<lambda>x. transfer_id x = tid \<and> to_email x = email u \<and> t_status x = TPending)
             (transfers w) of
        None \<Rightarrow> (Failed Http404, w)
      | Some tr \<Rightarrow> (Succeeded, save_transfer (tr\<lparr>t_status := TRejected\<rparr>) w))"

definition rescind_transfer :: "user \<Rightarrow> nat \<Rightarrow> world \<Rightarrow> outcome \<times> world" where
  "rescind_transfer u tid w =
     (case find (\<lambda>x. transfer_id x = tid \<and> from_user x = user_id u \<and> t_status x = TPending)
             (transfers w) of
        None \<Rightarrow> (Failed Http404, w)
      | Some tr \<Rightarrow>
          (Succeeded,
           w\<lparr>transfers := filter (\<lambda>y. transfer_id y \<noteq> transfer_id tr) (transfers w)\<rparr>))"

text \<open>The core ticket operations, and a sequence of them run one after the other.\<close>

datatype core_op =
    Checkout gateway user "nat \<Rightarrow> post_value"
  | Finalize retrieval "string option"
  | Initiate normaliser user nat "string option"
  | Accept user nat
  | Reject user nat
  | Rescind user nat

fun step :: "core_op \<Rightarrow> world \<Rightarrow> world" where
  "step (Checkout g u post) w = snd (create_checkout_session g u post w)"
| "step (Finalize r session_id) w = checkout_success r session_id w"
| "step (Initiate n u oid e) w = snd (transfer_ticket n u oid e w)"
| "step (Accept u tid) w = snd (accept_transfer u tid w)"
| "step (Reject u tid) w = snd (reject_transfer u tid w)"
| "step (Rescind u tid) w = snd (rescind_transfer u tid w)"

definition run :: "core_op list \<Rightarrow> world \<Rightarrow> world" where
  "run ops w = fold step ops w"

section \<open>Shifts (core/models.py, Shift.spots_remaining; core/views.py, shift_signup, shift_cancel)\<close>

definition spots_remaining :: "world \<Rightarrow> shift \<Rightarrow> int" where
  "spots_remaining w sh =
     int (capacity sh) - int (length (filter (\<lambda>a. a_shift a = shift_id sh) (assignments w)))"

text \<open>The join \<open>role__event=event\<close> of a shift.\<close>

definition shift_in_event :: "world \<Rightarrow> event \<Rightarrow> shift \<Rightarrow> bool" where
  "shift_in_event w ev sh =
     (case find (\<lambda>r. role_id r = s_role sh) (roles w) of
        None \<Rightarrow> False
      | Some r \<Rightarrow> role_event r = event_id ev)"

text \<open>\<open>Order.objects.filter(ticket_type__event=event, owning_user=u, status='completed').exists()\<close>.\<close>

definition has_ticket :: "world \<Rightarrow> event \<Rightarrow> nat \<Rightarrow> bool" where
  "has_ticket w ev u =
     list_ex (\<lambda>x. order_in_event w ev x \<and> owning_user x = u \<and> o_status x = Completed) (orders w)"

text \<open>\<open>ShiftAssignment.objects.filter(user=u, shift__role__event=event)\<close>.\<close>

definition user_event_assignments :: "world \<Rightarrow> event \<Rightarrow> nat \<Rightarrow> shift_assignment list" where
  "user_event_assignments w ev u =
     filter (\<lambda>a. a_user a = u
                 \<and> (case find (\<lambda>sh. shift_id sh = a_shift a) (shift_rows w) of
                       None \<Rightarrow> False
                     | Some sh \<Rightarrow> shift_in_event w ev sh)) (assignments w)"

text \<open>\<open>get_object_or_404(Shift, id=shift_id, role__event=event)\<close>.\<close>

definition find_shift :: "world \<Rightarrow> event \<Rightarrow> nat \<Rightarrow> shift option" where
  "find_shift w ev sid = find (\<lambda>sh. shift_id sh = sid \<and> shift_in_event w ev sh) (shift_rows w)"

definition shift_signup :: "user \<Rightarrow> nat \<Rightarrow> world \<Rightarrow> outcome \<times> world" where
  "shift_signup u sid w =
     (case get_active w of
        None \<Rightarrow> (Failed NoActiveEvent, w)
      | Some ev \<Rightarrow>
          if \<not> has_ticket w ev (user_id u) then (Failed TicketRequired, w)
          else if max_shifts_per_user ev > 0
                  \<and> length (user_event_assignments w ev (user_id u)) \<ge> max_shifts_per_user ev
          then (Failed (ShiftLimit (max_shifts_per_user ev)), w)
          else (case find_shift w ev sid of
                  None \<Rightarrow> (Failed Http404, w)
                | Some sh \<Rightarrow>
                    if list_ex (\<lambda>a. a_shift a = shift_id sh \<and> a_user a = user_id u) (assignments w)
                    then (Failed AlreadySignedUp, w)
                    else if spots_remaining w sh \<le> 0 then (Failed ShiftFull, w)
                    else (Succeeded,
                          w\<lparr>assignments := assignments w @
                              [\<lparr>assignment_id = fresh_id (map assignment_id (assignments w)),
                                a_shift = shift_id sh, a_user = user_id u\<rparr>]\<rparr>)))"

definition shift_cancel :: "user \<Rightarrow> nat \<Rightarrow> world \<Rightarrow> outcome \<times> world" where
  "shift_cancel u sid w =
     (case get_active w of
        None \<Rightarrow> (Failed NoActiveEvent, w)
      | Some ev \<Rightarrow>
          (case find_shift w ev sid of
             None \<Rightarrow> (Failed Http404, w)
           | Some sh \<Rightarrow>
               (case find (\<lambda>a. a_shift a = shift_id sh \<and> a_user a = user_id u) (assignments w) of
                  None \<Rightarrow> (Failed NotSignedUp, w)
                | Some assignment \<Rightarrow>
                    (Succeeded,
                     w\<lparr>assignments := filter (\<lambda>a. assignment_id a \<noteq> assignment_id assignment)
                                         (assignments w)\<rparr>))))"

datatype shift_op = Signup user nat | Cancel user nat

fun shift_step :: "shift_op \<Rightarrow> world \<Rightarrow> world" where
  "shift_step (Signup u sid) w = snd (shift_signup u sid w)"
| "shift_step (Cancel u sid) w = snd (shift_cancel u sid w)"

definition run_shift_ops :: "shift_op list \<Rightarrow> world \<Rightarrow> world" where
  "run_shift_ops ops w = fold shift_step ops w"

section \<open>Schedule grid (core/views.py, shifts)\<close>

definition hour_us :: int where
  "hour_us = 3600000000"

text \<open>\<open>datetime.max\<close>, 9999-12-31 23:59:59.999999, in microseconds since the epoch.\<close>

definition datetime_max :: int where
  "datetime_max = 253402300799999999"

text \<open>\<open>t.replace(minute=0, second=0, microsecond=0)\<close>: the part of \<open>t\<close> below the hour is cleared.\<close>

definition replace_hour :: "int \<Rightarrow> int" where
  "replace_hour t = t - t mod hour_us"

text \<open>
  \<open>t + timedelta(hours=1)\<close>: the sum, or \<open>OverflowError\<close> when it lies after
  \<open>datetime.max\<close>.
\<close>

definition add_hour :: "int \<Rightarrow> error + int" where
  "add_hour t = (if t + hour_us > datetime_max then Inl OverflowError else Inr (t + hour_us))"

text \<open>The end of a span of hours: one hour more when the time is past its truncated hour.\<close>

definition round_up_hour :: "int \<Rightarrow> error + int" where
  "round_up_hour t =
     (let h = replace_hour t in if t > h then add_hour h else Inr h)"

text \<open>\<open>while current < max_hour: hours.append(current); current += timedelta(hours=1)\<close>.\<close>

function hours_loop :: "int \<Rightarrow> int \<Rightarrow> int list \<Rightarrow> error + int list" where
  "hours_loop current max_hour hours =
     (if current < max_hour
      then (case add_hour current of
              Inl e \<Rightarrow> Inl e
            | Inr later \<Rightarrow> hours_loop later max_hour (hours @ [current]))
      else Inr hours)"
  by pat_completeness auto
termination
  by (relation "measure (\<lambda>(current, max_hour, hours). nat (max_hour - current))")
     (auto simp: add_hour_def hour_us_def split: if_splits)

declare hours_loop.simps [simp del]

text \<open>
  The dictionary \<open>role_hour_shift\<close>, keyed by role id and hour; the inner loop writes one
  entry per hour of the shift, a later write replacing an earlier one.
\<close>

type_synonym hour_map = "nat \<times> int \<rightharpoonup> shift"

function mark_hours :: "shift \<Rightarrow> int \<Rightarrow> int \<Rightarrow> hour_map \<Rightarrow> error + hour_map" where
  "mark_hours sh current shift_end_hour d =
     (if current < shift_end_hour
      then (case add_hour current of
              Inl e \<Rightarrow> Inl e
            | Inr later \<Rightarrow>
                mark_hours sh later shift_end_hour (d((s_role sh, current) \<mapsto> sh)))
      else Inr d)"
  by pat_completeness auto
termination
  by (relation "measure (\<lambda>(sh, current, shift_end_hour, d). nat (shift_end_hour - current))")
     (auto simp: add_hour_def hour_us_def split: if_splits)

declare mark_hours.simps [simp del]

fun role_hour_shift_loop :: "shift list \<Rightarrow> hour_map \<Rightarrow> error + hour_map" where
  "role_hour_shift_loop [] d = Inr d"
| "role_hour_shift_loop (sh # rest) d =
     (case round_up_hour (end_time sh) of
        Inl e \<Rightarrow> Inl e
      | Inr shift_end_hour \<Rightarrow>
          (case mark_hours sh (replace_hour (start_time sh)) shift_end_hour d of
             Inl e \<Rightarrow> Inl e
           | Inr d' \<Rightarrow> role_hour_shift_loop rest d'))"

definition role_hour_shift :: "shift list \<Rightarrow> error + hour_map" where
  "role_hour_shift all_shifts = role_hour_shift_loop all_shifts Map.empty"

datatype cell = Empty | ShiftStart shift int bool | ShiftContinue

text \<open>
  The rowspan of a shift, computed as in the loop that builds the grid: the end hour is
  rounded up again, then \<open>int((shift_end_hour - shift_start_hour).total_seconds() // 3600)\<close>.
\<close>

definition rowspan :: "shift \<Rightarrow> error + int" where
  "rowspan sh =
     (case round_up_hour (end_time sh) of
        Inl e \<Rightarrow> Inl e
      | Inr shift_end_hour \<Rightarrow>
          Inr ((shift_end_hour - replace_hour (start_time sh)) div hour_us))"

definition cell_of :: "hour_map \<Rightarrow> nat list \<Rightarrow> int \<Rightarrow> role \<Rightarrow> error + cell" where
  "cell_of d user_assignments hour r =
     (case d (role_id r, hour) of
        None \<Rightarrow> Inr Empty
      | Some sh \<Rightarrow>
          if hour = replace_hour (start_time sh)
          then (case rowspan sh of
                  Inl e \<Rightarrow> Inl e
                | Inr n \<Rightarrow> Inr (ShiftStart sh n (shift_id sh \<in> set user_assignments)))
          else Inr ShiftContinue)"

text \<open>The results of a loop body run over a list: the first exception ends the loop.\<close>

fun all_results :: "(error + 'a) list \<Rightarrow> error + 'a list" where
  "all_results [] = Inr []"
| "all_results (x # xs) =
     (case x of
        Inl e \<Rightarrow> Inl e
      | Inr v \<Rightarrow> (case all_results xs of Inl e \<Rightarrow> Inl e | Inr vs \<Rightarrow> Inr (v # vs)))"

text \<open>\<open>min(s.start_time for s in all_shifts)\<close> and \<open>max(s.end_time for s in all_shifts)\<close>.\<close>

definition min_time :: "shift \<Rightarrow> shift list \<Rightarrow> int" where
  "min_time first rest = fold min (map start_time rest) (start_time first)"

definition max_time :: "shift \<Rightarrow> shift list \<Rightarrow> int" where
  "max_time first rest = fold max (map end_time rest) (end_time first)"

text \<open>The list \<open>hours\<close> and the grid, one row per hour and one cell per role.\<close>

definition grid_hours :: "shift list \<Rightarrow> error + int list" where
  "grid_hours all_shifts =
     (case all_shifts of
        [] \<Rightarrow> Inr []
      | first # rest \<Rightarrow>
          (case round_up_hour (max_time first rest) of
             Inl e \<Rightarrow> Inl e
           | Inr max_hour \<Rightarrow> hours_loop (replace_hour (min_time first rest)) max_hour []))"

definition grid_row :: "hour_map \<Rightarrow> nat list \<Rightarrow> role list \<Rightarrow> int \<Rightarrow> error + (int \<times> cell list)" where
  "grid_row d user_assignments rs hour =
     (case all_results (map (cell_of d user_assignments hour) rs) of
        Inl e \<Rightarrow> Inl e
      | Inr cells \<Rightarrow> Inr (hour, cells))"

definition build_grid ::
  "role list \<Rightarrow> shift list \<Rightarrow> nat list \<Rightarrow> error + (int \<times> cell list) list" where
  "build_grid rs all_shifts user_assignments =
     (case grid_hours all_shifts of
        Inl e \<Rightarrow> Inl e
      | Inr hours \<Rightarrow>
          (case role_hour_shift all_shifts of
             Inl e \<Rightarrow> Inl e
           | Inr d \<Rightarrow> all_results (map (grid_row d user_assignments rs) hours)))"

record shifts_page =
  page_roles :: "role list"
  page_grid :: "(int \<times> cell list) list"
  page_hours :: "int list"
  page_has_ticket :: bool
  page_user_shift_count :: nat
  page_can_signup_more :: bool

definition shifts :: "user \<Rightarrow> world \<Rightarrow> error + shifts_page" where
  "shifts u w =
     (case get_active w of
        None \<Rightarrow> Inl NoActiveEvent
      | Some ev \<Rightarrow>
          let rs = filter (\<lambda>r. role_event r = event_id ev) (roles w);
              user_shift_count = length (user_event_assignments w ev (user_id u));
              page = \<lparr>page_roles = [], page_grid = [], page_hours = [],
                      page_has_ticket = has_ticket w ev (user_id u),
                      page_user_shift_count = user_shift_count,
                      page_can_signup_more =
                        (max_shifts_per_user ev = 0 \<or> user_shift_count < max_shifts_per_user ev)\<rparr>;
              all_shifts = filter (shift_in_event w ev) (shift_rows w)
          in if rs = [] then Inr page
             else if all_shifts = [] then Inr (page\<lparr>page_roles := rs\<rparr>)
             else (case grid_hours all_shifts of
                     Inl e \<Rightarrow> Inl e
                   | Inr hours \<Rightarrow>
                       (case build_grid rs all_shifts
                               (map a_shift (user_event_assignments w ev (user_id u))) of
                          Inl e \<Rightarrow> Inl e
                        | Inr grid \<Rightarrow>
                            Inr (page\<lparr>page_roles := rs, page_grid := grid,
                                      page_hours := hours\<rparr>))))"

section \<open>Notions used to state the properties of checkout\<close>

text \<open>
  The number of units a request asks of a ticket type: the parsed quantity when it is
  positive, zero otherwise.
\<close>

definition requested_quantity :: "(nat \<Rightarrow> post_value) \<Rightarrow> ticket_type \<Rightarrow> nat" where
  "requested_quantity post t =
     (case post (tt_id t) of IntText n \<Rightarrow> (if n > 0 then nat n else 0) | _ \<Rightarrow> 0)"

text \<open>The line items asked for: one per ticket type with a positive quantity.\<close>

definition requested_items :: "(nat \<Rightarrow> post_value) \<Rightarrow> ticket_type list \<Rightarrow> line_item list" where
  "requested_items post ts =
     map (\<lambda>t. (stripe_price_id t, int (requested_quantity post t)))
       (filter (\<lambda>t. requested_quantity post t > 0) ts)"

text \<open>The ticket type of each unit asked for, in the order of the ticket types.\<close>

definition requested_units :: "(nat \<Rightarrow> post_value) \<Rightarrow> ticket_type list \<Rightarrow> nat list" where
  "requested_units post ts =
     concat (map (\<lambda>t. replicate (requested_quantity post t) (tt_id t)) ts)"

text \<open>A request in which a missing or non-positive quantity is written as zero.\<close>

definition zeroed :: "(nat \<Rightarrow> post_value) \<Rightarrow> (nat \<Rightarrow> post_value)" where
  "zeroed post i =
     (case post i of
        Missing \<Rightarrow> IntText 0
      | IntText n \<Rightarrow> (if n \<le> 0 then IntText 0 else IntText n)
      | BadText \<Rightarrow> BadText)"

section \<open>Notions used to state the quota invariant\<close>

text \<open>Primary keys are unique in the tables of orders and of ticket types.\<close>

definition keys_ok :: "world \<Rightarrow> bool" where
  "keys_ok w = (distinct (map order_id (orders w)) \<and> distinct (map tt_id (ticket_types w)))"

text \<open>
  The quota of user \<open>u\<close> for the ticket type \<open>t\<close> of the table: the orders of \<open>u\<close> of that
  type that are pending or completed are at most \<open>max_per_user t\<close>.
\<close>

definition quota_ok :: "world \<Rightarrow> nat \<Rightarrow> ticket_type \<Rightarrow> bool" where
  "quota_ok w u t = (t \<in> set (ticket_types w) \<and> owned_count w u (tt_id t) \<le> max_per_user t)"

section \<open>Notions used to state the order of the signup checks\<close>

text \<open>The reason of the first check of a list that does not hold, if any.\<close>

definition first_failed :: "(bool \<times> error) list \<Rightarrow> error option" where
  "first_failed checks = map_option snd (find (\<lambda>c. \<not> fst c) checks)"

text \<open>The preconditions of a signup, each with the reason reported when it fails.\<close>

definition shift_exists :: "world \<Rightarrow> event \<Rightarrow> nat \<Rightarrow> bool \<times> error" where
  "shift_exists w ev sid = (find_shift w ev sid \<noteq> None, Http404)"

definition holds_ticket :: "world \<Rightarrow> event \<Rightarrow> user \<Rightarrow> bool \<times> error" where
  "holds_ticket w ev u = (has_ticket w ev (user_id u), TicketRequired)"

definition below_shift_cap :: "world \<Rightarrow> event \<Rightarrow> user \<Rightarrow> bool \<times> error" where
  "below_shift_cap w ev u =
     (max_shifts_per_user ev = 0
        \<or> length (user_event_assignments w ev (user_id u)) < max_shifts_per_user ev,
      ShiftLimit (max_shifts_per_user ev))"

definition not_signed_up :: "world \<Rightarrow> user \<Rightarrow> nat \<Rightarrow> bool \<times> error" where
  "not_signed_up w u sid =
     (\<not> list_ex (\<lambda>a. a_shift a = sid \<and> a_user a = user_id u) (assignments w), AlreadySignedUp)"

definition has_spot :: "world \<Rightarrow> event \<Rightarrow> nat \<Rightarrow> bool \<times> error" where
  "has_spot w ev sid =
     (case find_shift w ev sid of None \<Rightarrow> False | Some sh \<Rightarrow> spots_remaining w sh > 0, ShiftFull)"

text \<open>The order in which the specification lists the checks.\<close>

definition signup_failure_spec_order :: "user \<Rightarrow> nat \<Rightarrow> world \<Rightarrow> error option" where
  "signup_failure_spec_order u sid w =
     (case get_active w of
        None \<Rightarrow> Some NoActiveEvent
      | Some ev \<Rightarrow>
          first_failed [shift_exists w ev sid, holds_ticket w ev u, below_shift_cap w ev u,
                        not_signed_up w u sid, has_spot w ev sid])"

text \<open>The same checks with the lookup of the shift after the ticket and the cap.\<close>

definition signup_failure_lookup_third :: "user \<Rightarrow> nat \<Rightarrow> world \<Rightarrow> error option" where
  "signup_failure_lookup_third u sid w =
     (case get_active w of
        None \<Rightarrow> Some NoActiveEvent
      | Some ev \<Rightarrow>
          first_failed [holds_ticket w ev u, below_shift_cap w ev u, shift_exists w ev sid,
                        not_signed_up w u sid, has_spot w ev sid])"

section \<open>Notions used to state the properties of the grid\<close>

text \<open>
  9999-12-31 23:00:00, the last time to which an hour can be added without passing
  \<open>datetime.max\<close>.
\<close>

definition last_hour :: int where
  "last_hour = 253402297200000000"

text \<open>A time truncated up to the hour: itself on an hour boundary, the next hour otherwise.\<close>

definition hour_ceiling :: "int \<Rightarrow> int" where
  "hour_ceiling t = (if hour_us dvd t then t else replace_hour t + hour_us)"

text \<open>The hours from \<open>c\<close>, one hour apart, that lie before \<open>m\<close>, appended to \<open>acc\<close>.\<close>

function hour_slots :: "int \<Rightarrow> int \<Rightarrow> int list \<Rightarrow> int list" where
  "hour_slots c m acc = (if c < m then hour_slots (c + hour_us) m (acc @ [c]) else acc)"
  by pat_completeness auto
termination
  by (relation "measure (\<lambda>(c, m, acc). nat (m - c))") (auto simp: hour_us_def)

declare hour_slots.simps [simp del]

text \<open>
  The hours a shift occupies: from its start truncated down to the hour up to its end
  truncated up to the hour.
\<close>

definition shift_hours :: "shift \<Rightarrow> int list" where
  "shift_hours sh = hour_slots (replace_hour (start_time sh)) (hour_ceiling (end_time sh)) []"

text \<open>No other shift of the list, in the same role, occupies an hour of the shift.\<close>

definition alone_in_role :: "shift list \<Rightarrow> shift \<Rightarrow> bool" where
  "alone_in_role all_shifts sh =
     (\<forall>other\<in>set all_shifts. other \<noteq> sh \<and> s_role other = s_role sh \<longrightarrow>
        set (shift_hours other) \<inter> set (shift_hours sh) = {})"

text \<open>
  The shift written last at a key of the dictionary: the last shift of the list, of that
  role, that occupies that hour.
\<close>

definition occupant :: "shift list \<Rightarrow> nat \<times> int \<Rightarrow> shift option" where
  "occupant all_shifts k =
     find (\<lambda>sh. fst k = s_role sh \<and> snd k \<in> set (shift_hours sh)) (rev all_shifts)"

section \<open>Example states\<close>

text \<open>
  The normaliser of the examples, whose texts are ASCII: it removes the ASCII white space
  at both ends and maps the letters A to Z to a to z, as \<open>strip\<close> and \<open>lower\<close> do on
  such text.
\<close>

definition ascii_space :: "char \<Rightarrow> bool" where
  "ascii_space c = (let n = (of_char c :: nat) in (9 \<le> n \<and> n \<le> 13) \<or> (28 \<le> n \<and> n \<le> 32))"

definition ascii_lower_char :: "char \<Rightarrow> char" where
  "ascii_lower_char c =
     (let n = (of_char c :: nat) in if 65 \<le> n \<and> n \<le> 90 then char_of (n + 32) else c)"

definition ascii_strip_lower :: normaliser where
  "ascii_strip_lower s =
     map ascii_lower_char (rev (dropWhile ascii_space (rev (dropWhile ascii_space s))))"

definition alice :: user where
  "alice = \<lparr>user_id = 1, email = ''alice@example.org''\<rparr>"

definition bob :: user where
  "bob = \<lparr>user_id = 2, email = ''bob@example.org''\<rparr>"

definition carol :: user where
  "carol = \<lparr>user_id = 3, email = ''carol@example.org''\<rparr>"

definition festival :: event where
  "festival = \<lparr>event_id = 1, is_active = True, max_shifts_per_user = 1\<rparr>"

definition general_admission :: ticket_type where
  "general_admission = \<lparr>tt_id = 1, tt_event = 1, stripe_price_id = ''price_ga'', max_per_user = 2\<rparr>"

definition mk_order :: "nat \<Rightarrow> nat \<Rightarrow> string \<Rightarrow> order_status \<Rightarrow> order" where
  "mk_order i u session st =
     \<lparr>order_id = i, o_ticket_type = 1, purchasing_user = u, owning_user = u,
      stripe_checkout_session_id = session, stripe_payment_intent_id = None, o_status = st\<rparr>"

definition empty_world :: world where
  "empty_world =
     \<lparr>users = [alice, bob, carol], events = [festival], ticket_types = [general_admission],
      orders = [], transfers = [], roles = [], shift_rows = [], assignments = [],
      stripe_calls = []\<rparr>"

text \<open>Alice has two unpaid orders of one checkout session, Bob one of another.\<close>

definition unpaid_world :: world where
  "unpaid_world =
     empty_world\<lparr>orders := [mk_order 1 1 ''cs_a'' Pending, mk_order 2 1 ''cs_a'' Pending,
                             mk_order 3 2 ''cs_b'' Pending]\<rparr>"

definition paid_a :: retrieval where
  "paid_a sid = (if sid = ''cs_a'' then Some (''paid'', Some ''pi_a'') else None)"

definition accepting :: gateway where
  "accepting line_items customer_email = Some ''cs_new''"

definition no_quantities :: "nat \<Rightarrow> post_value" where
  "no_quantities i = Missing"

definition one_ga :: "nat \<Rightarrow> post_value" where
  "one_ga i = (if i = 1 then IntText 1 else Missing)"

definition two_ga :: "nat \<Rightarrow> post_value" where
  "two_ga i = (if i = 1 then IntText 2 else Missing)"

text \<open>A request that names only a ticket type that does not belong to the active event.\<close>

definition other_type_only :: "nat \<Rightarrow> post_value" where
  "other_type_only i = (if i = 7 then IntText 3 else Missing)"

text \<open>
  Alice's session is paid, she offers her first ticket to Bob, Bob accepts it, and
  Alice then asks for two more tickets.
\<close>

definition example_ops :: "core_op list" where
  "example_ops =
     [Finalize paid_a (Some ''cs_a''),
      Initiate ascii_strip_lower alice 1 (Some '' Bob@Example.org ''),
      Accept bob 1,
      Checkout accepting alice two_ga]"

text \<open>Alice's session is paid and her first ticket is offered to Bob.\<close>

definition offered_world :: world where
  "offered_world =
     run [Finalize paid_a (Some ''cs_a''),
          Initiate ascii_strip_lower alice 1 (Some '' Bob@Example.org '')]
       unpaid_world"

text \<open>After the offer Bob buys one more ticket himself, which fills his quota.\<close>

definition filled_world :: world where
  "filled_world = run [Checkout accepting bob one_ga] offered_world"

definition offer :: transfer where
  "offer = \<lparr>transfer_id = 1, t_order = 1, from_user = 1, to_email = ''bob@example.org'',
             to_user = Some 2, t_status = TPending\<rparr>"

definition offered_order :: order where
  "offered_order = (mk_order 1 1 ''cs_a'' Completed)\<lparr>stripe_payment_intent_id := Some ''pi_a''\<rparr>"

definition paid_world :: world where
  "paid_world = run [Finalize paid_a (Some ''cs_a'')] unpaid_world"

definition second_order :: order where
  "second_order = (mk_order 2 1 ''cs_a'' Completed)\<lparr>stripe_payment_intent_id := Some ''pi_a''\<rparr>"

text \<open>
  One role with two shifts, from 10:00 to 12:00 and from 12:30 to 13:00, each for one
  person, in the state where Alice and Bob hold a completed ticket each and Carol none.
\<close>

definition kitchen :: role where
  "kitchen = \<lparr>role_id = 1, role_event = 1\<rparr>"

definition morning :: shift where
  "morning = \<lparr>shift_id = 1, s_role = 1, start_time = 36000000000, end_time = 43200000000,
               capacity = 1\<rparr>"

definition noon :: shift where
  "noon = \<lparr>shift_id = 2, s_role = 1, start_time = 45000000000, end_time = 46800000000,
            capacity = 1\<rparr>"

definition shift_world :: world where
  "shift_world = (run example_ops unpaid_world)\<lparr>roles := [kitchen], shift_rows := [morning, noon]\<rparr>"

definition shift_ops :: "shift_op list" where
  "shift_ops = [Signup alice 1, Signup bob 1, Cancel alice 1, Signup bob 1, Signup carol 2]"

text \<open>Alice has taken the only place of the morning shift.\<close>

definition full_world :: world where
  "full_world = run_shift_ops [Signup alice 1] shift_world"

text \<open>A shift from 15:00 to 15:00, and a shift from 14:30 to 14:30.\<close>

definition pause :: shift where
  "pause = \<lparr>shift_id = 3, s_role = 1, start_time = 54000000000, end_time = 54000000000,
             capacity = 1\<rparr>"

definition blink :: shift where
  "blink = \<lparr>shift_id = 4, s_role = 1, start_time = 52200000000, end_time = 52200000000,
             capacity = 1\<rparr>"

text \<open>A shift from 14:45 to 15:00, and one that ends at 23:30 on 9999-12-31.\<close>

definition quarter :: shift where
  "quarter = \<lparr>shift_id = 5, s_role = 1, start_time = 53100000000, end_time = 54000000000,
               capacity = 1\<rparr>"

definition year_end :: shift where
  "year_end = \<lparr>shift_id = 6, s_role = 1, start_time = 253402293600000000,
                end_time = 253402299000000000, capacity = 1\<rparr>"

section \<open>Properties of checkout finalization\<close>

lemma mark_paid_twice:
  "mark_paid sid p2 (mark_paid sid p1 x) = mark_paid sid p1 x"
  by (simp add: mark_paid_def)

text \<open>
  C4. When the gateway reports the session as paid, \<open>checkout_success\<close> turns exactly the
  orders with that session id and status pending into completed orders carrying the
  payment intent, and leaves everything else as it was; running it again on the result,
  whatever the gateway answers the second time, gives the same state.
\<close>

theorem checkout_success_idempotent:
  assumes paid: "stripe_retrieve sid = Some (''paid'', payment_intent)" and ne: "sid \<noteq> []"
  shows "checkout_success stripe_retrieve (Some sid) w =
           w\<lparr>orders := map (\<lambda>x. if stripe_checkout_session_id x = sid \<and> o_status x = Pending
                                 then x\<lparr>o_status := Completed,
                                        stripe_payment_intent_id := payment_intent\<rparr>
                                 else x) (orders w)\<rparr>
         \<and> checkout_success again (Some sid) (checkout_success stripe_retrieve (Some sid) w) =
           checkout_success stripe_retrieve (Some sid) w"
proof -
  have one: "checkout_success stripe_retrieve (Some sid) w =
               w\<lparr>orders := map (mark_paid sid payment_intent) (orders w)\<rparr>"
    using paid ne by (simp add: checkout_success_def)
  have two: "checkout_success again (Some sid)
               (w\<lparr>orders := map (mark_paid sid payment_intent) (orders w)\<rparr>)
             = w\<lparr>orders := map (mark_paid sid payment_intent) (orders w)\<rparr>"
    by (auto simp: checkout_success_def mark_paid_twice split: option.splits)
  show ?thesis using one two by (simp add: mark_paid_def[abs_def])
qed

theorem checkout_success_idempotent_witness:
  "paid_a ''cs_a'' = Some (''paid'', Some ''pi_a'') \<and> ''cs_a'' \<noteq> []
   \<and> orders (checkout_success paid_a (Some ''cs_a'') unpaid_world) =
       [(mk_order 1 1 ''cs_a'' Completed)\<lparr>stripe_payment_intent_id := Some ''pi_a''\<rparr>,
        (mk_order 2 1 ''cs_a'' Completed)\<lparr>stripe_payment_intent_id := Some ''pi_a''\<rparr>,
        mk_order 3 2 ''cs_b'' Pending]
   \<and> checkout_success paid_a (Some ''cs_a'') (checkout_success paid_a (Some ''cs_a'') unpaid_world) =
       checkout_success paid_a (Some ''cs_a'') unpaid_world"
proof -
  have h: "paid_a ''cs_a'' = Some (''paid'', Some ''pi_a'')" by (simp add: paid_a_def)
  have n: "''cs_a'' \<noteq> []" by simp
  note t = checkout_success_idempotent
          [where stripe_retrieve = paid_a and sid = "''cs_a''" and w = unpaid_world and again = paid_a,
           OF h n]
  have a: "orders (checkout_success paid_a (Some ''cs_a'') unpaid_world) =
       [(mk_order 1 1 ''cs_a'' Completed)\<lparr>stripe_payment_intent_id := Some ''pi_a''\<rparr>,
        (mk_order 2 1 ''cs_a'' Completed)\<lparr>stripe_payment_intent_id := Some ''pi_a''\<rparr>,
        mk_order 3 2 ''cs_b'' Pending]"
    by (subst conjunct1 [OF t]) (simp add: unpaid_world_def empty_world_def mk_order_def)
  show ?thesis using h n a conjunct2 [OF t] by blast
qed

section \<open>Properties of checkout-session creation\<close>

lemma collect_items_cong:
  "(\<forall>t\<in>set ts. post (tt_id t) = post' (tt_id t)) \<Longrightarrow>
   collect_items post ts li tc = collect_items post' ts li tc"
  by (induction ts arbitrary: li tc) (auto split: sum.splits)

lemma py_int_zeroed:
  "py_int (zeroed post i) =
     (case py_int (post i) of Inl e \<Rightarrow> Inl e | Inr q \<Rightarrow> Inr (if q \<le> 0 then 0 else q))"
  by (cases "post i") (auto simp: zeroed_def)

lemma collect_items_zeroed:
  "collect_items (zeroed post) ts li tc = collect_items post ts li tc"
  by (induction ts arbitrary: li tc) (auto simp: py_int_zeroed split: sum.splits)

lemma collect_items_nonpositive:
  "(\<forall>t\<in>set ts. \<exists>q. py_int (post (tt_id t)) = Inr q \<and> q \<le> 0) \<Longrightarrow>
   collect_items post ts li tc = Inr (li, tc)"
  by (induction ts arbitrary: li tc) auto

text \<open>
  C10. With an active event, \<open>create_checkout_session\<close> depends on the request only
  through the quantities of the ticket types of that event: two requests that agree on
  them give the same result, whatever they say about other ids. A missing or
  non-positive quantity counts as zero. When every quantity read is missing or at most
  zero the request is rejected with "select at least one ticket" and the state,
  including the log of gateway calls and the orders, is unchanged.
\<close>

theorem checkout_reads_active_types_only:
  assumes active: "get_active w = Some ev"
  shows "((\<forall>t\<in>set (event_ticket_types w ev). post (tt_id t) = post' (tt_id t)) \<longrightarrow>
            create_checkout_session g u post w = create_checkout_session g u post' w)
         \<and> create_checkout_session g u (zeroed post) w = create_checkout_session g u post w
         \<and> ((\<forall>t\<in>set (event_ticket_types w ev). \<exists>q. py_int (post (tt_id t)) = Inr q \<and> q \<le> 0) \<longrightarrow>
              create_checkout_session g u post w = (Failed SelectAtLeastOne, w))"
proof (intro conjI impI)
  assume "\<forall>t\<in>set (event_ticket_types w ev). post (tt_id t) = post' (tt_id t)"
  then have "collect_items post (event_ticket_types w ev) [] [] =
             collect_items post' (event_ticket_types w ev) [] []"
    by (rule collect_items_cong)
  then show "create_checkout_session g u post w = create_checkout_session g u post' w"
    using active by (simp add: create_checkout_session_def)
next
  show "create_checkout_session g u (zeroed post) w = create_checkout_session g u post w"
    using active by (simp add: create_checkout_session_def collect_items_zeroed)
next
  assume "\<forall>t\<in>set (event_ticket_types w ev). \<exists>q. py_int (post (tt_id t)) = Inr q \<and> q \<le> 0"
  then have "collect_items post (event_ticket_types w ev) [] [] = Inr ([], [])"
    by (rule collect_items_nonpositive)
  then show "create_checkout_session g u post w = (Failed SelectAtLeastOne, w)"
    using active by (simp add: create_checkout_session_def)
qed

theorem checkout_reads_active_types_only_witness:
  "get_active empty_world = Some festival
   \<and> event_ticket_types empty_world festival = [general_admission]
   \<and> other_type_only (tt_id general_admission) = no_quantities (tt_id general_admission)
   \<and> py_int (other_type_only (tt_id general_admission)) = Inr 0
   \<and> create_checkout_session accepting alice other_type_only empty_world =
       create_checkout_session accepting alice no_quantities empty_world
   \<and> create_checkout_session accepting alice (zeroed other_type_only) empty_world =
       create_checkout_session accepting alice other_type_only empty_world
   \<and> create_checkout_session accepting alice other_type_only empty_world =
       (Failed SelectAtLeastOne, empty_world)"
proof -
  have active: "get_active empty_world = Some festival"
    by code_simp
  have types: "event_ticket_types empty_world festival = [general_admission]"
    by code_simp
  have same: "other_type_only (tt_id general_admission) = no_quantities (tt_id general_admission)"
    by (simp add: other_type_only_def no_quantities_def general_admission_def)
  have zero: "py_int (other_type_only (tt_id general_admission)) = Inr 0"
    by (simp add: other_type_only_def general_admission_def)
  have agree: "\<forall>t\<in>set (event_ticket_types empty_world festival).
                 other_type_only (tt_id t) = no_quantities (tt_id t)"
    unfolding types using same by simp
  have nonpos: "\<forall>t\<in>set (event_ticket_types empty_world festival).
                  \<exists>q. py_int (other_type_only (tt_id t)) = Inr q \<and> q \<le> 0"
    unfolding types using zero by simp
  note t = checkout_reads_active_types_only
             [OF active, where post = other_type_only and post' = no_quantities
                and g = accepting and u = alice]
  show ?thesis using t active types same zero agree nonpos by blast
qed

lemma requested_quantity_py_int:
  "post (tt_id t) \<noteq> BadText \<Longrightarrow>
   \<exists>q. py_int (post (tt_id t)) = Inr q \<and> requested_quantity post t = (if q > 0 then nat q else 0)"
  by (cases "post (tt_id t)") (auto simp: requested_quantity_def)

lemma collect_items_parsed:
  "(\<forall>t\<in>set ts. post (tt_id t) \<noteq> BadText) \<Longrightarrow>
   collect_items post ts li tc =
     Inr (li @ requested_items post ts,
          tc @ concat (map (\<lambda>t. replicate (requested_quantity post t) t) ts))"
proof (induction ts arbitrary: li tc)
  case Nil
  then show ?case by (simp add: requested_items_def)
next
  case (Cons t ts)
  from Cons.prems have "post (tt_id t) \<noteq> BadText" by simp
  then obtain q where q: "py_int (post (tt_id t)) = Inr q"
      "requested_quantity post t = (if q > 0 then nat q else 0)"
    using requested_quantity_py_int by blast
  from Cons.prems have rest: "\<forall>t\<in>set ts. post (tt_id t) \<noteq> BadText" by simp
  show ?case using q Cons.IH [OF rest] by (simp add: requested_items_def)
qed

lemma get0_requested_fold:
  "get0 (fold (\<lambda>t d. d(tt_id t \<mapsto> get0 d (tt_id t) + 1)) tc d) i =
     get0 d i + length (filter (\<lambda>t. tt_id t = i) tc)"
  by (induction tc arbitrary: d) (auto simp: get0_def)

lemma get0_requested_counts:
  "get0 (requested_counts tc) i = length (filter (\<lambda>t. tt_id t = i) tc)"
proof -
  have "get0 Map.empty i = 0" by (simp add: get0_def)
  then show ?thesis
    unfolding requested_counts_def by (simp only: get0_requested_fold)
qed

lemma filter_units_other:
  "tt_id t \<notin> tt_id ` set ts \<Longrightarrow>
   filter (\<lambda>x. tt_id x = tt_id t) (concat (map (\<lambda>t. replicate (requested_quantity post t) t) ts)) = []"
  by (induction ts) auto

lemma count_units:
  "distinct (map tt_id ts) \<Longrightarrow> t \<in> set ts \<Longrightarrow>
   length (filter (\<lambda>x. tt_id x = tt_id t)
             (concat (map (\<lambda>t. replicate (requested_quantity post t) t) ts))) =
     requested_quantity post t"
proof (induction ts)
  case Nil
  then show ?case by simp
next
  case (Cons a ts)
  show ?case
  proof (cases "a = t")
    case True
    with Cons.prems have "tt_id t \<notin> tt_id ` set ts" by auto
    then show ?thesis using True by (simp add: filter_units_other)
  next
    case False
    with Cons.prems have "t \<in> set ts" "tt_id a \<noteq> tt_id t" by auto
    then show ?thesis using Cons by simp
  qed
qed

lemma find_distinct_key:
  "distinct (map key xs) \<Longrightarrow> x \<in> set xs \<Longrightarrow> find (\<lambda>y. key y = key x) xs = Some x"
  by (induction xs) auto

lemma get0_existing_counts:
  assumes "distinct (map tt_id (ticket_types w))" and "t \<in> set (event_ticket_types w ev)"
  shows "get0 (existing_counts w ev u) (tt_id t) = owned_count w u (tt_id t)"
proof -
  from assms(2) have t: "t \<in> set (ticket_types w)" "tt_event t = event_id ev"
    by (auto simp: event_ticket_types_def)
  have "ticket_type_of w (tt_id t) = Some t"
    unfolding ticket_type_of_def using assms(1) t(1) by (rule find_distinct_key)
  then have "\<And>x. o_ticket_type x = tt_id t \<Longrightarrow> order_in_event w ev x"
    using t(2) by (simp add: order_in_event_def)
  then have "filter (\<lambda>x. order_in_event w ev x \<and> o_ticket_type x = tt_id t
                 \<and> owning_user x = u \<and> counts_toward_limit x) (orders w)
        = filter (\<lambda>x. o_ticket_type x = tt_id t \<and> owning_user x = u \<and> counts_toward_limit x)
            (orders w)"
    by (intro filter_cong) auto
  then show ?thesis
    by (simp add: existing_counts_def owned_count_def get0_def Let_def)
qed

lemma create_orders_appends:
  "\<exists>new. create_orders u session tc os = os @ new
         \<and> map o_ticket_type new = map tt_id tc
         \<and> (\<forall>x\<in>set new. o_status x = Pending \<and> stripe_checkout_session_id x = session
                          \<and> owning_user x = user_id u \<and> purchasing_user x = user_id u)"
proof (induction tc arbitrary: os)
  case Nil
  then show ?case by (simp add: create_orders_def)
next
  case (Cons t tc)
  from Cons [of "create_order u session t os"] obtain new where
    new: "create_orders u session tc (create_order u session t os) = create_order u session t os @ new"
      "map o_ticket_type new = map tt_id tc"
      "\<forall>x\<in>set new. o_status x = Pending \<and> stripe_checkout_session_id x = session
                          \<and> owning_user x = user_id u \<and> purchasing_user x = user_id u"
    by blast
  obtain o1 where o1: "create_order u session t os = os @ [o1]" "o_ticket_type o1 = tt_id t"
     "o_status o1 = Pending" "stripe_checkout_session_id o1 = session"
     "owning_user o1 = user_id u" "purchasing_user o1 = user_id u"
    by (simp add: create_order_def)
  have "create_orders u session (t # tc) os = os @ (o1 # new)"
    using new(1) o1(1) by (simp add: create_orders_def)
  moreover have "map o_ticket_type (o1 # new) = map tt_id (t # tc)"
    using new(2) o1(2) by simp
  moreover have "\<forall>x\<in>set (o1 # new). o_status x = Pending \<and> stripe_checkout_session_id x = session
                          \<and> owning_user x = user_id u \<and> purchasing_user x = user_id u"
    using new(3) o1 by simp
  ultimately show ?case by blast
qed


lemma over_limit_iff:
  assumes keys: "distinct (map tt_id (ticket_types w))"
    and t: "t \<in> set (event_ticket_types w ev)"
  shows "over_limit (existing_counts w ev u)
           (requested_counts (concat (map (\<lambda>t. replicate (requested_quantity post t) t)
                                       (event_ticket_types w ev)))) t
         \<longleftrightarrow> owned_count w u (tt_id t) + requested_quantity post t > max_per_user t"
proof -
  have "distinct (map tt_id (event_ticket_types w ev))"
    unfolding event_ticket_types_def using keys by (rule distinct_map_filter)
  then have "length (filter (\<lambda>x. tt_id x = tt_id t)
             (concat (map (\<lambda>t. replicate (requested_quantity post t) t) (event_ticket_types w ev))))
          = requested_quantity post t"
    using t by (rule count_units)
  then show ?thesis
    using get0_existing_counts [OF keys t, of u]
    by (simp add: over_limit_def get0_requested_counts)
qed

text \<open>
  C3 (amended). For a request whose quantities parse as integers: when it asks for no
  unit of any ticket type of the active event, \<open>create_checkout_session\<close> fails with
  "select at least one ticket" and the state unchanged. When it asks for at least one
  unit: if some ticket type of the event has the user's pending-plus-completed count
  plus the requested quantity above its cap, the view fails for the first such type in
  the order of the event's ticket types, with the remaining allowance
  \<open>max 0 (max_per_user - existing)\<close> of that type, and leaves the state unchanged (no
  gateway call, no order); otherwise the gateway is called exactly once with one line
  item per requested ticket type, and when it returns a session the new orders are
  exactly one pending order per requested unit, all with that session id, while no order
  is created when the gateway call raises.
\<close>

theorem checkout_all_or_nothing:
  assumes active: "get_active w = Some ev"
    and keys: "distinct (map tt_id (ticket_types w))"
    and parsed: "\<forall>t\<in>set (event_ticket_types w ev). post (tt_id t) \<noteq> BadText"
  shows
    "((\<forall>t\<in>set (event_ticket_types w ev). requested_quantity post t = 0) \<longrightarrow>
        create_checkout_session g u post w = (Failed SelectAtLeastOne, w))
   \<and> ((\<exists>t\<in>set (event_ticket_types w ev). requested_quantity post t > 0) \<longrightarrow>
       (\<forall>t. find (\<lambda>t. owned_count w (user_id u) (tt_id t) + requested_quantity post t
                          > max_per_user t) (event_ticket_types w ev) = Some t \<longrightarrow>
          create_checkout_session g u post w =
            (Failed (LimitExceeded (tt_id t) (max_per_user t)
                       (owned_count w (user_id u) (tt_id t))
                       (nat (max 0 (int (max_per_user t)
                                     - int (owned_count w (user_id u) (tt_id t)))))), w))
     \<and> (\<not> (\<exists>t\<in>set (event_ticket_types w ev).
            owned_count w (user_id u) (tt_id t) + requested_quantity post t > max_per_user t) \<longrightarrow>
        stripe_calls (snd (create_checkout_session g u post w)) =
          stripe_calls w @ [(requested_items post (event_ticket_types w ev), email u)]
        \<and> (g (requested_items post (event_ticket_types w ev)) (email u) = None \<longrightarrow>
             orders (snd (create_checkout_session g u post w)) = orders w)
        \<and> (\<forall>session. g (requested_items post (event_ticket_types w ev)) (email u) = Some session \<longrightarrow>
             (\<exists>new. create_checkout_session g u post w =
                      (Succeeded,
                       w\<lparr>stripe_calls := stripe_calls w @
                            [(requested_items post (event_ticket_types w ev), email u)],
                         orders := orders w @ new\<rparr>)
                   \<and> map o_ticket_type new = requested_units post (event_ticket_types w ev)
                   \<and> (\<forall>x\<in>set new. o_status x = Pending
                            \<and> stripe_checkout_session_id x = session
                            \<and> owning_user x = user_id u \<and> purchasing_user x = user_id u)))))"
proof -
  let ?ts = "event_ticket_types w ev"
  let ?tc = "concat (map (\<lambda>t. replicate (requested_quantity post t) t) ?ts)"
  let ?li = "requested_items post ?ts"
  let ?over = "over_limit (existing_counts w ev (user_id u)) (requested_counts ?tc)"
  let ?lim = "\<lambda>t. owned_count w (user_id u) (tt_id t) + requested_quantity post t
                     > max_per_user t"
  have collect: "collect_items post ?ts [] [] = Inr (?li, ?tc)"
    using collect_items_parsed [OF parsed, of "[]" "[]"] by simp
  have over: "\<And>t. t \<in> set ?ts \<Longrightarrow> ?over t \<longleftrightarrow> ?lim t"
    using over_limit_iff [OF keys] by blast
  have existing: "\<And>t. t \<in> set ?ts \<Longrightarrow>
      get0 (existing_counts w ev (user_id u)) (tt_id t) = owned_count w (user_id u) (tt_id t)"
    using get0_existing_counts [OF keys] by blast
  have same: "find ?over ?ts = find ?lim ?ts"
    by (rule find_cong) (simp_all add: over)
  have no_units: "create_checkout_session g u post w = (Failed SelectAtLeastOne, w)"
    if zero: "\<forall>t\<in>set ?ts. requested_quantity post t = 0"
  proof -
    have "?li = []" using zero by (simp add: requested_items_def filter_empty_conv)
    then show ?thesis using active collect by (simp add: create_checkout_session_def)
  qed
  have something: "(\<forall>t. find ?lim ?ts = Some t \<longrightarrow>
          create_checkout_session g u post w =
            (Failed (LimitExceeded (tt_id t) (max_per_user t)
                       (owned_count w (user_id u) (tt_id t))
                       (nat (max 0 (int (max_per_user t)
                                     - int (owned_count w (user_id u) (tt_id t)))))), w))
     \<and> (\<not> (\<exists>t\<in>set ?ts. ?lim t) \<longrightarrow>
        stripe_calls (snd (create_checkout_session g u post w)) =
          stripe_calls w @ [(?li, email u)]
        \<and> (g ?li (email u) = None \<longrightarrow>
             orders (snd (create_checkout_session g u post w)) = orders w)
        \<and> (\<forall>session. g ?li (email u) = Some session \<longrightarrow>
             (\<exists>new. create_checkout_session g u post w =
                      (Succeeded,
                       w\<lparr>stripe_calls := stripe_calls w @ [(?li, email u)],
                         orders := orders w @ new\<rparr>)
                   \<and> map o_ticket_type new = requested_units post ?ts
                   \<and> (\<forall>x\<in>set new. o_status x = Pending
                            \<and> stripe_checkout_session_id x = session
                            \<and> owning_user x = user_id u \<and> purchasing_user x = user_id u))))"
    if some: "\<exists>t\<in>set ?ts. requested_quantity post t > 0"
  proof -
    have nonempty: "?li \<noteq> []"
      using some by (auto simp: requested_items_def filter_empty_conv)
    have unfold: "create_checkout_session g u post w =
        (case find ?over ?ts of
           Some t \<Rightarrow>
             (Failed (LimitExceeded (tt_id t) (max_per_user t)
                        (get0 (existing_counts w ev (user_id u)) (tt_id t))
                        (remaining_for (existing_counts w ev (user_id u)) t)), w)
         | None \<Rightarrow>
             (case g ?li (email u) of
                None \<Rightarrow> (Failed StripeError, w\<lparr>stripe_calls := stripe_calls w @ [(?li, email u)]\<rparr>)
              | Some session \<Rightarrow>
                  (Succeeded,
                   w\<lparr>stripe_calls := stripe_calls w @ [(?li, email u)],
                     orders := create_orders u session ?tc (orders w)\<rparr>)))"
      using active collect nonempty
      by (simp add: create_checkout_session_def Let_def split: option.splits)
    show ?thesis
    proof (cases "find ?over ?ts")
      case None
      then have none: "\<not> (\<exists>t\<in>set ?ts. ?lim t)"
        using over by (auto simp: find_None_iff)
      have calls: "stripe_calls (snd (create_checkout_session g u post w)) =
          stripe_calls w @ [(?li, email u)]"
        using None unfold by (simp split: option.splits)
      have fails: "g ?li (email u) = None \<longrightarrow>
          orders (snd (create_checkout_session g u post w)) = orders w"
        using None unfold by simp
      have succeeds: "\<forall>session. g ?li (email u) = Some session \<longrightarrow>
          (\<exists>new. create_checkout_session g u post w =
                   (Succeeded, w\<lparr>stripe_calls := stripe_calls w @ [(?li, email u)],
                                  orders := orders w @ new\<rparr>)
                \<and> map o_ticket_type new = requested_units post ?ts
                \<and> (\<forall>x\<in>set new. o_status x = Pending
                         \<and> stripe_checkout_session_id x = session
                         \<and> owning_user x = user_id u \<and> purchasing_user x = user_id u))"
      proof (intro allI impI)
        fix session assume g: "g ?li (email u) = Some session"
        obtain new where new: "create_orders u session ?tc (orders w) = orders w @ new"
          "map o_ticket_type new = map tt_id ?tc"
          "\<forall>x\<in>set new. o_status x = Pending \<and> stripe_checkout_session_id x = session
                            \<and> owning_user x = user_id u \<and> purchasing_user x = user_id u"
          using create_orders_appends by blast
        have "map tt_id ?tc = requested_units post ?ts"
          by (simp add: requested_units_def map_concat comp_def)
        then show "\<exists>new. create_checkout_session g u post w =
                   (Succeeded, w\<lparr>stripe_calls := stripe_calls w @ [(?li, email u)],
                                  orders := orders w @ new\<rparr>)
                \<and> map o_ticket_type new = requested_units post ?ts
                \<and> (\<forall>x\<in>set new. o_status x = Pending
                         \<and> stripe_checkout_session_id x = session
                         \<and> owning_user x = user_id u \<and> purchasing_user x = user_id u)"
          using None unfold g new by auto
      qed
      have first: "\<forall>t. find ?lim ?ts = Some t \<longrightarrow>
          create_checkout_session g u post w =
            (Failed (LimitExceeded (tt_id t) (max_per_user t)
                       (owned_count w (user_id u) (tt_id t))
                       (nat (max 0 (int (max_per_user t)
                                     - int (owned_count w (user_id u) (tt_id t)))))), w)"
        using None same by simp
      show ?thesis using first calls fails succeeds by blast
    next
      case (Some t)
      then have t: "t \<in> set ?ts" "?over t"
        by (auto simp: find_Some_iff in_set_conv_nth)
      have found: "find ?lim ?ts = Some t" using Some same by simp
      have "create_checkout_session g u post w =
              (Failed (LimitExceeded (tt_id t) (max_per_user t)
                         (owned_count w (user_id u) (tt_id t))
                         (nat (max 0 (int (max_per_user t)
                                       - int (owned_count w (user_id u) (tt_id t)))))), w)"
        using Some unfold existing [OF t(1)] by (simp add: remaining_for_def)
      moreover have "\<exists>t\<in>set ?ts. ?lim t"
        using over [OF t(1)] t by blast
      ultimately show ?thesis using found by auto
    qed
  qed
  show ?thesis
  proof (rule conjI; rule impI)
    assume "\<forall>t\<in>set ?ts. requested_quantity post t = 0"
    then show "create_checkout_session g u post w = (Failed SelectAtLeastOne, w)"
      using no_units by blast
  next
    assume some: "\<exists>t\<in>set ?ts. requested_quantity post t > 0"
    from something [OF some] show "(\<forall>t. find ?lim ?ts = Some t \<longrightarrow>
          create_checkout_session g u post w =
            (Failed (LimitExceeded (tt_id t) (max_per_user t)
                       (owned_count w (user_id u) (tt_id t))
                       (nat (max 0 (int (max_per_user t)
                                     - int (owned_count w (user_id u) (tt_id t)))))), w))
     \<and> (\<not> (\<exists>t\<in>set ?ts. ?lim t) \<longrightarrow>
        stripe_calls (snd (create_checkout_session g u post w)) =
          stripe_calls w @ [(?li, email u)]
        \<and> (g ?li (email u) = None \<longrightarrow>
             orders (snd (create_checkout_session g u post w)) = orders w)
        \<and> (\<forall>session. g ?li (email u) = Some session \<longrightarrow>
             (\<exists>new. create_checkout_session g u post w =
                      (Succeeded,
                       w\<lparr>stripe_calls := stripe_calls w @ [(?li, email u)],
                         orders := orders w @ new\<rparr>)
                   \<and> map o_ticket_type new = requested_units post ?ts
                   \<and> (\<forall>x\<in>set new. o_status x = Pending
                            \<and> stripe_checkout_session_id x = session
                            \<and> owning_user x = user_id u \<and> purchasing_user x = user_id u))))" .
  qed
qed

theorem checkout_all_or_nothing_witness:
  "get_active unpaid_world = Some festival
   \<and> distinct (map tt_id (ticket_types unpaid_world))
   \<and> event_ticket_types unpaid_world festival = [general_admission]
   \<and> one_ga (tt_id general_admission) \<noteq> BadText
   \<and> no_quantities (tt_id general_admission) \<noteq> BadText
   \<and> requested_quantity no_quantities general_admission = 0
   \<and> create_checkout_session accepting alice no_quantities unpaid_world =
        (Failed SelectAtLeastOne, unpaid_world)
   \<and> requested_quantity one_ga general_admission > 0
   \<and> find (\<lambda>t. owned_count unpaid_world (user_id alice) (tt_id t)
                    + requested_quantity one_ga t > max_per_user t)
         (event_ticket_types unpaid_world festival) = Some general_admission
   \<and> create_checkout_session accepting alice one_ga unpaid_world =
        (Failed (LimitExceeded 1 2 2 0), unpaid_world)
   \<and> \<not> (\<exists>t\<in>set (event_ticket_types unpaid_world festival).
          owned_count unpaid_world (user_id bob) (tt_id t) + requested_quantity one_ga t
            > max_per_user t)
   \<and> accepting (requested_items one_ga (event_ticket_types unpaid_world festival)) (email bob)
        = Some ''cs_new''
   \<and> stripe_calls (snd (create_checkout_session accepting bob one_ga unpaid_world)) =
        [([(''price_ga'', 1)], ''bob@example.org'')]
   \<and> (\<exists>new. orders (snd (create_checkout_session accepting bob one_ga unpaid_world)) =
                orders unpaid_world @ new
           \<and> map o_ticket_type new = [1]
           \<and> (\<forall>x\<in>set new. o_status x = Pending \<and> stripe_checkout_session_id x = ''cs_new''))"
proof -
  have readable: "one_ga (tt_id general_admission) \<noteq> BadText"
    by (simp add: one_ga_def)
  have readable0: "no_quantities (tt_id general_admission) \<noteq> BadText"
    by (simp add: no_quantities_def)
  have active: "get_active unpaid_world = Some festival"
    by code_simp
  have keys: "distinct (map tt_id (ticket_types unpaid_world))"
    by code_simp
  have types: "event_ticket_types unpaid_world festival = [general_admission]"
    by code_simp
  have parsed: "\<forall>t\<in>set (event_ticket_types unpaid_world festival). one_ga (tt_id t) \<noteq> BadText"
    unfolding types by (simp add: one_ga_def)
  have parsed0: "\<forall>t\<in>set (event_ticket_types unpaid_world festival).
                   no_quantities (tt_id t) \<noteq> BadText"
    unfolding types by (simp add: no_quantities_def)
  have qty0: "requested_quantity no_quantities general_admission = 0"
    by code_simp
  have zero: "\<forall>t\<in>set (event_ticket_types unpaid_world festival).
                requested_quantity no_quantities t = 0"
    unfolding types by (simp add: qty0)
  have empty: "create_checkout_session accepting alice no_quantities unpaid_world =
        (Failed SelectAtLeastOne, unpaid_world)"
    using checkout_all_or_nothing
            [OF active keys parsed0, where u = alice and g = accepting, THEN conjunct1] zero
    by blast
  have qty: "requested_quantity one_ga general_admission = 1"
    by code_simp
  have pos: "requested_quantity one_ga general_admission > 0"
    using qty by simp
  have some: "\<exists>t\<in>set (event_ticket_types unpaid_world festival). requested_quantity one_ga t > 0"
    unfolding types by (simp add: qty)
  have bob_count: "owned_count unpaid_world (user_id bob) (tt_id general_admission) = 1"
    by code_simp
  have cap: "max_per_user general_admission = 2" "tt_id general_admission = 1"
    by (simp_all add: general_admission_def)
  have first: "find (\<lambda>t. owned_count unpaid_world (user_id alice) (tt_id t)
                           + requested_quantity one_ga t > max_per_user t)
                  (event_ticket_types unpaid_world festival) = Some general_admission"
    by code_simp
  have under: "\<not> (\<exists>t\<in>set (event_ticket_types unpaid_world festival).
          owned_count unpaid_world (user_id bob) (tt_id t) + requested_quantity one_ga t
            > max_per_user t)"
    unfolding types by (simp add: bob_count qty cap(1))
  have items: "requested_items one_ga (event_ticket_types unpaid_world festival) = [(''price_ga'', 1)]"
    by code_simp
  have units: "requested_units one_ga (event_ticket_types unpaid_world festival) = [1]"
    by code_simp
  have session: "accepting (requested_items one_ga (event_ticket_types unpaid_world festival))
                   (email bob) = Some ''cs_new''"
    by (simp add: accepting_def)
  have bob_mail: "email bob = ''bob@example.org''" "stripe_calls unpaid_world = []"
    by (simp_all add: bob_def unpaid_world_def empty_world_def)
  have alice_count: "owned_count unpaid_world (user_id alice) (tt_id general_admission) = 2"
    by code_simp
  note for_alice = checkout_all_or_nothing
    [OF active keys parsed, where u = alice and g = accepting, THEN conjunct2, rule_format, OF some,
     THEN conjunct1, rule_format, OF first]
  note for_bob = checkout_all_or_nothing
    [OF active keys parsed, where u = bob and g = accepting, THEN conjunct2, rule_format, OF some,
     THEN conjunct2, rule_format, OF under]
  have rejected: "create_checkout_session accepting alice one_ga unpaid_world =
        (Failed (LimitExceeded 1 2 2 0), unpaid_world)"
    using for_alice alice_count by (simp add: cap)
  have calls: "stripe_calls (snd (create_checkout_session accepting bob one_ga unpaid_world)) =
        [([(''price_ga'', 1)], ''bob@example.org'')]"
    using for_bob [THEN conjunct1] by (simp add: items bob_mail)
  from for_bob [THEN conjunct2, THEN conjunct2, rule_format, OF session]
  obtain new where new:
    "create_checkout_session accepting bob one_ga unpaid_world =
       (Succeeded, unpaid_world\<lparr>stripe_calls := stripe_calls unpaid_world @
            [(requested_items one_ga (event_ticket_types unpaid_world festival), email bob)],
          orders := orders unpaid_world @ new\<rparr>)"
    "map o_ticket_type new = requested_units one_ga (event_ticket_types unpaid_world festival)"
    "\<forall>x\<in>set new. o_status x = Pending \<and> stripe_checkout_session_id x = ''cs_new''
         \<and> owning_user x = user_id bob \<and> purchasing_user x = user_id bob"
    by blast
  have created: "\<exists>new. orders (snd (create_checkout_session accepting bob one_ga unpaid_world)) =
                orders unpaid_world @ new
           \<and> map o_ticket_type new = [1]
           \<and> (\<forall>x\<in>set new. o_status x = Pending \<and> stripe_checkout_session_id x = ''cs_new'')"
    using new units by auto
  show ?thesis
    using active keys types readable readable0 qty0 empty pos first rejected under session calls
      created by blast
qed

text \<open>
  The request with no quantity at all puts no ticket type over its cap, and yet the
  gateway is not called: the request is rejected before the limit check.
\<close>

theorem checkout_all_or_nothing_counterexample:
  "get_active empty_world = Some festival
   \<and> event_ticket_types empty_world festival = [general_admission]
   \<and> \<not> (owned_count empty_world (user_id alice) (tt_id general_admission)
           + requested_quantity no_quantities general_admission
         > max_per_user general_admission)
   \<and> create_checkout_session accepting alice no_quantities empty_world =
       (Failed SelectAtLeastOne, empty_world)
   \<and> stripe_calls (snd (create_checkout_session accepting alice no_quantities empty_world)) = []"
  by code_simp

section \<open>The per-user ticket quota\<close>

lemma fold_max_ge: "(a::nat) \<le> fold max ks a"
proof (induction ks arbitrary: a)
  case Nil
  then show ?case by simp
next
  case (Cons k ks)
  have "a \<le> max k a" by simp
  also have "max k a \<le> fold max ks (max k a)" by (rule Cons.IH)
  finally show ?case by simp
qed

lemma fold_max_mem: "(k::nat) \<in> set ks \<Longrightarrow> k \<le> fold max ks a"
proof (induction ks arbitrary: a)
  case Nil
  then show ?case by simp
next
  case (Cons x ks)
  show ?case
  proof (cases "k = x")
    case True
    have "k \<le> max x a" using True by simp
    also have "max x a \<le> fold max ks (max x a)" by (rule fold_max_ge)
    finally show ?thesis by simp
  next
    case False
    with Cons.prems have "k \<in> set ks" by simp
    then show ?thesis using Cons.IH by simp
  qed
qed

lemma fresh_id_new: "fresh_id ks \<notin> set ks"
proof
  assume "fresh_id ks \<in> set ks"
  then have "fresh_id ks \<le> fold max ks 0" by (rule fold_max_mem)
  then show False by (simp add: fresh_id_def)
qed

lemma create_order_distinct:
  "distinct (map order_id os) \<Longrightarrow> distinct (map order_id (create_order u session t os))"
  using fresh_id_new [of "map order_id os"] by (simp add: create_order_def)

lemma create_orders_distinct:
  "distinct (map order_id os) \<Longrightarrow> distinct (map order_id (create_orders u session tc os))"
  unfolding create_orders_def
  by (induction tc arbitrary: os) (simp_all add: create_order_distinct)

lemma collect_items_subset:
  "collect_items post ts li tc = Inr (li', tc') \<Longrightarrow> set tc' \<subseteq> set tc \<union> set ts"
proof (induction ts arbitrary: li tc)
  case Nil
  then show ?case by simp
next
  case (Cons t ts)
  then show ?case
    by (fastforce split: sum.splits if_splits)
qed

lemma owned_count_append:
  assumes "\<forall>x\<in>set new. owning_user x = v \<and> o_status x = Pending"
  shows "length (filter (\<lambda>x. o_ticket_type x = i \<and> owning_user x = u \<and> counts_toward_limit x)
                   (os @ new))
         = length (filter (\<lambda>x. o_ticket_type x = i \<and> owning_user x = u \<and> counts_toward_limit x) os)
           + (if u = v then length (filter (\<lambda>k. k = i) (map o_ticket_type new)) else 0)"
proof -
  have "filter (\<lambda>x. o_ticket_type x = i \<and> owning_user x = u \<and> counts_toward_limit x) new
        = (if u = v then filter (\<lambda>x. o_ticket_type x = i) new else [])"
    using assms by (auto simp: counts_toward_limit_def intro!: filter_cong simp: filter_empty_conv)
  then show ?thesis by (simp add: filter_map comp_def)
qed

lemma replace_count_le:
  assumes "distinct (map order_id xs)" and "order_id x' = k"
  shows "length (filter P (map (\<lambda>y. if order_id y = k then x' else y) xs))
         \<le> length (filter P xs) + (if P x' then 1 else 0)"
  using assms(1)
proof (induction xs)
  case Nil
  then show ?case by simp
next
  case (Cons a xs)
  show ?case
  proof (cases "order_id a = k")
    case True
    from Cons.prems have "order_id a \<notin> order_id ` set xs" by simp
    then have "\<forall>y\<in>set xs. order_id y \<noteq> order_id a" by (metis imageI)
    with True have "\<forall>y\<in>set xs. order_id y \<noteq> k" by simp
    then have "map (\<lambda>y. if order_id y = k then x' else y) xs = xs"
      by (intro map_idI) auto
    then show ?thesis using True by simp
  next
    case False
    from Cons.prems have "distinct (map order_id xs)" by simp
    from Cons.IH [OF this] show ?thesis using False by (auto split: if_splits)
  qed
qed

lemma replace_count_not:
  assumes "\<not> P x'"
  shows "length (filter P (map (\<lambda>y. if order_id y = k then x' else y) xs)) \<le> length (filter P xs)"
  using assms by (induction xs) auto

lemma replace_keeps_ids:
  "order_id x' = k \<Longrightarrow> map order_id (map (\<lambda>y. if order_id y = k then x' else y) xs) = map order_id xs"
  by (induction xs) auto

lemma owned_count_stripe_calls [simp]:
  "owned_count (w\<lparr>stripe_calls := c\<rparr>) u i = owned_count w u i"
  by (simp add: owned_count_def)

lemma owned_count_transfers [simp]:
  "owned_count (w\<lparr>transfers := c\<rparr>) u i = owned_count w u i"
  by (simp add: owned_count_def)

lemma other_type_not_requested:
  assumes keys: "distinct (map tt_id (ticket_types w))"
    and t: "t \<in> set (ticket_types w)" and out: "t \<notin> set (event_ticket_types w ev)"
    and sub: "set tc \<subseteq> set (event_ticket_types w ev)"
  shows "filter (\<lambda>x. tt_id x = tt_id t) tc = []"
proof -
  have "\<And>x. x \<in> set tc \<Longrightarrow> tt_id x \<noteq> tt_id t"
  proof
    fix x assume x: "x \<in> set tc" and same: "tt_id x = tt_id t"
    from x sub have xin: "x \<in> set (event_ticket_types w ev)" by blast
    then have "x \<in> set (ticket_types w)" by (simp add: event_ticket_types_def)
    with keys t same have "x = t" by (meson distinct_map inj_onD)
    with xin out show False by simp
  qed
  then show ?thesis by (simp add: filter_empty_conv)
qed

lemma checkout_quota:
  assumes keys: "keys_ok w" and q: "quota_ok w u t"
  shows "keys_ok (snd (create_checkout_session g v post w))
         \<and> quota_ok (snd (create_checkout_session g v post w)) u t"
proof (cases "get_active w")
  case None
  then show ?thesis using keys q by (simp add: create_checkout_session_def)
next
  case (Some ev)
  let ?ts = "event_ticket_types w ev"
  show ?thesis
  proof (cases "collect_items post ?ts [] []")
    case (Inl e)
    then show ?thesis using Some keys q by (simp add: create_checkout_session_def)
  next
    case (Inr pair)
    obtain li tc where pair: "pair = (li, tc)" by (cases pair)
    let ?ex = "existing_counts w ev (user_id v)"
    let ?rq = "requested_counts tc"
    have sub: "set tc \<subseteq> set ?ts"
      using collect_items_subset [of post ?ts "[]" "[]" li tc] Inr pair by simp
    show ?thesis
    proof (cases "li = [] \<or> find (over_limit ?ex ?rq) ?ts \<noteq> None")
      case True
      then show ?thesis using Some Inr pair keys q
        by (auto simp: create_checkout_session_def Let_def)
    next
      case False
      then have li: "li \<noteq> []" and none: "find (over_limit ?ex ?rq) ?ts = None" by auto
      show ?thesis
      proof (cases "g li (email v)")
        case None
        then have "snd (create_checkout_session g v post w) =
                     w\<lparr>stripe_calls := stripe_calls w @ [(li, email v)]\<rparr>"
          using Some Inr pair li none by (simp add: create_checkout_session_def Let_def)
        then show ?thesis using keys q by (simp add: keys_ok_def quota_ok_def)
      next
        case (Some session)
        have res: "snd (create_checkout_session g v post w) =
                     w\<lparr>stripe_calls := stripe_calls w @ [(li, email v)],
                       orders := create_orders v session tc (orders w)\<rparr>"
          using \<open>get_active w = Some ev\<close> Inr pair li none Some
          by (simp add: create_checkout_session_def Let_def)
        obtain new where new: "create_orders v session tc (orders w) = orders w @ new"
          "map o_ticket_type new = map tt_id tc"
          "\<forall>x\<in>set new. o_status x = Pending \<and> stripe_checkout_session_id x = session
                          \<and> owning_user x = user_id v \<and> purchasing_user x = user_id v"
          using create_orders_appends by blast
        have k: "keys_ok (snd (create_checkout_session g v post w))"
          using keys create_orders_distinct [of "orders w" v session tc]
          by (simp add: res keys_ok_def)
        have tk: "distinct (map tt_id (ticket_types w))" and tin: "t \<in> set (ticket_types w)"
          and le: "owned_count w u (tt_id t) \<le> max_per_user t"
          using keys q by (simp_all add: keys_ok_def quota_ok_def)
        have count: "owned_count (snd (create_checkout_session g v post w)) u (tt_id t)
              = owned_count w u (tt_id t)
                + (if u = user_id v then length (filter (\<lambda>x. tt_id x = tt_id t) tc) else 0)"
        proof -
          have "\<forall>x\<in>set new. owning_user x = user_id v \<and> o_status x = Pending"
            using new(3) by simp
          from owned_count_append [OF this, of "tt_id t" u "orders w"]
          show ?thesis
            by (simp add: res owned_count_def new(1) new(2) filter_map comp_def)
        qed
        have "owned_count (snd (create_checkout_session g v post w)) u (tt_id t) \<le> max_per_user t"
        proof (cases "u = user_id v \<and> t \<in> set ?ts")
          case True
          then have "\<not> over_limit ?ex ?rq t"
            using none by (simp add: find_None_iff)
          moreover have "get0 ?ex (tt_id t) = owned_count w u (tt_id t)"
            using True get0_existing_counts [OF tk, of t ev u] by simp
          ultimately show ?thesis
            using True count by (simp add: over_limit_def get0_requested_counts)
        next
          case False
          show ?thesis
          proof (cases "u = user_id v")
            case True
            with False have "t \<notin> set ?ts" by simp
            then have "filter (\<lambda>x. tt_id x = tt_id t) tc = []"
              using other_type_not_requested [OF tk tin _ sub] by blast
            then show ?thesis using count le True by simp
          next
            case False
            then show ?thesis using count le by simp
          qed
        qed
        then show ?thesis using k tin by (simp add: quota_ok_def res)
      qed
    qed
  qed
qed

lemma mark_paid_same:
  "order_id (mark_paid sid p x) = order_id x"
  "o_ticket_type (mark_paid sid p x) = o_ticket_type x"
  "owning_user (mark_paid sid p x) = owning_user x"
  "counts_toward_limit (mark_paid sid p x) = counts_toward_limit x"
  by (auto simp: mark_paid_def counts_toward_limit_def)

lemma finalize_quota:
  assumes keys: "keys_ok w" and q: "quota_ok w u t"
  shows "keys_ok (checkout_success r session_id w)
         \<and> quota_ok (checkout_success r session_id w) u t"
proof -
  have "\<And>sid p. order_id \<circ> mark_paid sid p = order_id"
    by (rule ext) (simp add: mark_paid_same)
  moreover have "\<And>sid p i. owned_count (w\<lparr>orders := map (mark_paid sid p) (orders w)\<rparr>) u i
                          = owned_count w u i"
    by (simp add: owned_count_def filter_map comp_def mark_paid_same)
  ultimately show ?thesis using keys q
    by (auto simp: checkout_success_def keys_ok_def quota_ok_def split: option.splits)
qed

lemma transfer_ticket_orders:
  "orders (snd (transfer_ticket n u oid e w)) = orders w
   \<and> ticket_types (snd (transfer_ticket n u oid e w)) = ticket_types w"
  by (auto simp: transfer_ticket_def Let_def split: option.splits)

lemma reject_transfer_orders:
  "orders (snd (reject_transfer u tid w)) = orders w
   \<and> ticket_types (snd (reject_transfer u tid w)) = ticket_types w"
  by (auto simp: reject_transfer_def save_transfer_def split: option.splits)

lemma rescind_transfer_orders:
  "orders (snd (rescind_transfer u tid w)) = orders w
   \<and> ticket_types (snd (rescind_transfer u tid w)) = ticket_types w"
  by (auto simp: rescind_transfer_def split: option.splits)

lemma same_orders_quota:
  assumes "orders w' = orders w \<and> ticket_types w' = ticket_types w"
    and "keys_ok w" and "quota_ok w u t"
  shows "keys_ok w' \<and> quota_ok w' u t"
  using assms by (simp add: keys_ok_def quota_ok_def owned_count_def)

lemma accept_transfer_cases:
  "snd (accept_transfer v tid w) = w
   \<or> (\<exists>tr x tt. find (\<lambda>x. transfer_id x = tid \<and> to_email x = email v \<and> t_status x = TPending)
                     (transfers w) = Some tr
         \<and> order_of w (t_order tr) = Some x
         \<and> ticket_type_of w (o_ticket_type x) = Some tt
         \<and> owned_count w (user_id v) (o_ticket_type x) < max_per_user tt
         \<and> accept_transfer v tid w =
             (Succeeded,
              save_transfer (tr\<lparr>to_user := Some (user_id v), t_status := TAccepted\<rparr>)
                (save_order (x\<lparr>owning_user := user_id v\<rparr>) w)))"
  by (auto simp: accept_transfer_def Let_def split: option.splits)

lemma accept_quota:
  assumes keys: "keys_ok w" and q: "quota_ok w u t"
  shows "keys_ok (snd (accept_transfer v tid w)) \<and> quota_ok (snd (accept_transfer v tid w)) u t"
proof -
  from accept_transfer_cases [of v tid w] show ?thesis
  proof
    assume "snd (accept_transfer v tid w) = w"
    then show ?thesis using keys q by simp
  next
    assume "\<exists>tr x tt. find (\<lambda>x. transfer_id x = tid \<and> to_email x = email v \<and> t_status x = TPending)
                     (transfers w) = Some tr
         \<and> order_of w (t_order tr) = Some x
         \<and> ticket_type_of w (o_ticket_type x) = Some tt
         \<and> owned_count w (user_id v) (o_ticket_type x) < max_per_user tt
         \<and> accept_transfer v tid w =
             (Succeeded,
              save_transfer (tr\<lparr>to_user := Some (user_id v), t_status := TAccepted\<rparr>)
                (save_order (x\<lparr>owning_user := user_id v\<rparr>) w))"
    then obtain tr x tt where
      tt: "ticket_type_of w (o_ticket_type x) = Some tt"
      and below: "owned_count w (user_id v) (o_ticket_type x) < max_per_user tt"
      and res: "accept_transfer v tid w =
             (Succeeded,
              save_transfer (tr\<lparr>to_user := Some (user_id v), t_status := TAccepted\<rparr>)
                (save_order (x\<lparr>owning_user := user_id v\<rparr>) w))"
      by blast
    let ?x' = "x\<lparr>owning_user := user_id v\<rparr>"
    let ?P = "\<lambda>y. o_ticket_type y = tt_id t \<and> owning_user y = u \<and> counts_toward_limit y"
    let ?new = "map (\<lambda>y. if order_id y = order_id x then ?x' else y) (orders w)"
    have os: "orders (snd (accept_transfer v tid w)) = ?new"
      and ts: "ticket_types (snd (accept_transfer v tid w)) = ticket_types w"
      by (simp_all add: res save_transfer_def save_order_def)
    have ok: "distinct (map order_id (orders w))" and tk: "distinct (map tt_id (ticket_types w))"
      and tin: "t \<in> set (ticket_types w)" and le: "owned_count w u (tt_id t) \<le> max_per_user t"
      using keys q by (simp_all add: keys_ok_def quota_ok_def)
    have ids: "map order_id ?new = map order_id (orders w)"
      by (rule replace_keeps_ids) simp
    have "length (filter ?P ?new) \<le> max_per_user t"
    proof (cases "?P ?x'")
      case True
      then have same: "o_ticket_type x = tt_id t" "u = user_id v" by simp_all
      have "ticket_type_of w (tt_id t) = Some t"
        unfolding ticket_type_of_def using tk tin by (rule find_distinct_key)
      with tt same have "tt = t" by simp
      with below same have "owned_count w u (tt_id t) < max_per_user t" by simp
      moreover have "length (filter ?P ?new) \<le> length (filter ?P (orders w)) + 1"
        using replace_count_le [OF ok, of ?x' "order_id x" ?P] True by simp
      ultimately show ?thesis by (simp add: owned_count_def)
    next
      case False
      then have "length (filter ?P ?new) \<le> length (filter ?P (orders w))"
        by (rule replace_count_not)
      then show ?thesis using le by (simp add: owned_count_def)
    qed
    then have "owned_count (snd (accept_transfer v tid w)) u (tt_id t) \<le> max_per_user t"
      by (simp add: owned_count_def os)
    moreover have "distinct (map order_id (orders (snd (accept_transfer v tid w))))"
      unfolding os ids by (rule ok)
    ultimately show ?thesis using tk tin ts by (simp add: keys_ok_def quota_ok_def)
  qed
qed

lemma step_quota:
  assumes "keys_ok w" and "quota_ok w u t"
  shows "keys_ok (step c w) \<and> quota_ok (step c w) u t"
proof (cases c)
  case (Checkout g v post)
  then show ?thesis using checkout_quota [OF assms] by simp
next
  case (Finalize r session_id)
  then show ?thesis using finalize_quota [OF assms] by simp
next
  case (Initiate n v oid e)
  then show ?thesis using same_orders_quota [OF transfer_ticket_orders assms] by simp
next
  case (Accept v tid)
  then show ?thesis using accept_quota [OF assms] by simp
next
  case (Reject v tid)
  then show ?thesis using same_orders_quota [OF reject_transfer_orders assms] by simp
next
  case (Rescind v tid)
  then show ?thesis using same_orders_quota [OF rescind_transfer_orders assms] by simp
qed

lemma run_quota:
  "keys_ok w \<Longrightarrow> quota_ok w u t \<Longrightarrow> keys_ok (run cs w) \<and> quota_ok (run cs w) u t"
  unfolding run_def
proof (induction cs arbitrary: w)
  case Nil
  then show ?case by simp
next
  case (Cons c cs)
  from step_quota [OF Cons.prems] have "keys_ok (step c w)" "quota_ok (step c w) u t"
    by simp_all
  from Cons.IH [OF this] show ?case by simp
qed

text \<open>
  C1. Take a state whose primary keys are unique, a user \<open>u\<close> and a ticket type \<open>t\<close> of the
  table such that the pending and completed orders of \<open>u\<close> of type \<open>t\<close> are at most
  \<open>max_per_user t\<close>. After any sequence of checkout-session creations, checkout
  finalizations and transfer initiations, acceptances, rejections and rescissions, run
  one after the other, that count is still at most \<open>max_per_user t\<close>.
\<close>

theorem quota_preserved:
  assumes "distinct (map order_id (orders w))"
    and "distinct (map tt_id (ticket_types w))"
    and "t \<in> set (ticket_types w)"
    and "owned_count w u (tt_id t) \<le> max_per_user t"
  shows "t \<in> set (ticket_types (run cs w))
         \<and> owned_count (run cs w) u (tt_id t) \<le> max_per_user t"
  using run_quota [of w u t cs] assms by (simp add: keys_ok_def quota_ok_def)

theorem quota_preserved_witness:
  "distinct (map order_id (orders unpaid_world))
   \<and> distinct (map tt_id (ticket_types unpaid_world))
   \<and> general_admission \<in> set (ticket_types unpaid_world)
   \<and> owned_count unpaid_world (user_id bob) (tt_id general_admission)
       \<le> max_per_user general_admission
   \<and> owned_count (run example_ops unpaid_world) (user_id bob) (tt_id general_admission)
       \<le> max_per_user general_admission
   \<and> owned_count (run example_ops unpaid_world) (user_id bob) (tt_id general_admission) = 2
   \<and> owned_count (run example_ops unpaid_world) (user_id alice) (tt_id general_admission) = 1"
proof -
  have h1: "distinct (map order_id (orders unpaid_world))" by code_simp
  have h2: "distinct (map tt_id (ticket_types unpaid_world))" by code_simp
  have h3: "general_admission \<in> set (ticket_types unpaid_world)" by code_simp
  have h4: "owned_count unpaid_world (user_id bob) (tt_id general_admission)
              \<le> max_per_user general_admission" by code_simp
  note t = quota_preserved [OF h1 h2 h3 h4, of example_ops]
  have v: "owned_count (run example_ops unpaid_world) (user_id bob) (tt_id general_admission) = 2"
    by code_simp
  have v': "owned_count (run example_ops unpaid_world) (user_id alice) (tt_id general_admission) = 1"
    by code_simp
  show ?thesis using h1 h2 h3 h4 t v v' by blast
qed

section \<open>Properties of transfers\<close>

lemma find_after_replace:
  "find (\<lambda>y. key y = k) xs = Some x \<Longrightarrow> key x' = k \<Longrightarrow>
   find (\<lambda>y. key y = k) (map (\<lambda>y. if key y = k then x' else y) xs) = Some x'"
  by (induction xs) (auto split: if_splits)

lemma find_pending_id:
  "find (\<lambda>x. transfer_id x = tid \<and> Q x) xs = Some tr \<Longrightarrow>
   transfer_id tr = tid \<and> (\<exists>y. find (\<lambda>x. transfer_id x = tid) xs = Some y)"
  by (induction xs) (auto split: if_splits)

text \<open>
  C2 (amended). \<open>accept_transfer\<close> succeeds only for a pending transfer addressed to the
  acceptor whose order's ticket type has, in the state at acceptance, fewer pending and
  completed orders of the acceptor than \<open>max_per_user\<close>. When it succeeds, the resulting
  state has the order owned by the acceptor and the transfer accepted with the acceptor
  as \<open>to_user\<close>. Whenever it does not succeed the state is unchanged and nothing is
  written; in particular when the count has reached the cap the result is the limit
  error and the unchanged state. A successful acceptance writes twice: the state after
  the first write has the order owned by the acceptor and the transfers as they were,
  and the state after the second write is the resulting state.
\<close>

theorem accept_transfer_checked:
  "(fst (accept_transfer v tid w) = Succeeded \<longrightarrow>
      (\<exists>tr x tt.
          find (\<lambda>x. transfer_id x = tid \<and> to_email x = email v \<and> t_status x = TPending)
            (transfers w) = Some tr
        \<and> order_of w (t_order tr) = Some x
        \<and> ticket_type_of w (o_ticket_type x) = Some tt
        \<and> owned_count w (user_id v) (o_ticket_type x) < max_per_user tt
        \<and> order_of (snd (accept_transfer v tid w)) (t_order tr) =
            Some (x\<lparr>owning_user := user_id v\<rparr>)
        \<and> transfer_of (snd (accept_transfer v tid w)) tid =
            Some (tr\<lparr>to_user := Some (user_id v), t_status := TAccepted\<rparr>)))
   \<and> (fst (accept_transfer v tid w) \<noteq> Succeeded \<longrightarrow> snd (accept_transfer v tid w) = w)
   \<and> (\<forall>tr x tt.
          find (\<lambda>x. transfer_id x = tid \<and> to_email x = email v \<and> t_status x = TPending)
            (transfers w) = Some tr
        \<and> order_of w (t_order tr) = Some x
        \<and> ticket_type_of w (o_ticket_type x) = Some tt
        \<and> owned_count w (user_id v) (o_ticket_type x) \<ge> max_per_user tt
        \<longrightarrow> accept_transfer v tid w = (Failed AcceptLimit, w))
   \<and> (fst (accept_transfer v tid w) \<noteq> Succeeded \<longrightarrow> accept_transfer_commits v tid w = [])
   \<and> (fst (accept_transfer v tid w) = Succeeded \<longrightarrow>
      (\<exists>tr x.
          find (\<lambda>x. transfer_id x = tid \<and> to_email x = email v \<and> t_status x = TPending)
            (transfers w) = Some tr
        \<and> order_of w (t_order tr) = Some x
        \<and> accept_transfer_commits v tid w =
            [save_order (x\<lparr>owning_user := user_id v\<rparr>) w, snd (accept_transfer v tid w)]
        \<and> order_of (save_order (x\<lparr>owning_user := user_id v\<rparr>) w) (t_order tr) =
            Some (x\<lparr>owning_user := user_id v\<rparr>)
        \<and> transfers (save_order (x\<lparr>owning_user := user_id v\<rparr>) w) = transfers w))"
proof (intro conjI impI allI)
  assume ok: "fst (accept_transfer v tid w) = Succeeded"
  then obtain tr x tt where
    tr: "find (\<lambda>x. transfer_id x = tid \<and> to_email x = email v \<and> t_status x = TPending)
            (transfers w) = Some tr"
    and x: "order_of w (t_order tr) = Some x"
    and tt: "ticket_type_of w (o_ticket_type x) = Some tt"
    and below: "owned_count w (user_id v) (o_ticket_type x) < max_per_user tt"
    and res: "accept_transfer v tid w =
             (Succeeded,
              save_transfer (tr\<lparr>to_user := Some (user_id v), t_status := TAccepted\<rparr>)
                (save_order (x\<lparr>owning_user := user_id v\<rparr>) w))"
    by (auto simp: accept_transfer_def Let_def split: option.splits if_splits)
  have xid: "order_id x = t_order tr"
    using x by (auto simp: order_of_def find_Some_iff)
  from find_pending_id [OF tr] obtain y where
    trid: "transfer_id tr = tid" and y: "find (\<lambda>x. transfer_id x = tid) (transfers w) = Some y"
    by blast
  have "order_of (snd (accept_transfer v tid w)) (t_order tr) = Some (x\<lparr>owning_user := user_id v\<rparr>)"
    using find_after_replace [of order_id "t_order tr" "orders w" x "x\<lparr>owning_user := user_id v\<rparr>"]
      x xid
    by (simp add: res order_of_def save_transfer_def save_order_def)
  moreover have "transfer_of (snd (accept_transfer v tid w)) tid =
            Some (tr\<lparr>to_user := Some (user_id v), t_status := TAccepted\<rparr>)"
    using find_after_replace [of transfer_id tid "transfers w" y
            "tr\<lparr>to_user := Some (user_id v), t_status := TAccepted\<rparr>"] y trid
    by (simp add: res transfer_of_def save_transfer_def save_order_def)
  ultimately show "\<exists>tr x tt.
          find (\<lambda>x. transfer_id x = tid \<and> to_email x = email v \<and> t_status x = TPending)
            (transfers w) = Some tr
        \<and> order_of w (t_order tr) = Some x
        \<and> ticket_type_of w (o_ticket_type x) = Some tt
        \<and> owned_count w (user_id v) (o_ticket_type x) < max_per_user tt
        \<and> order_of (snd (accept_transfer v tid w)) (t_order tr) =
            Some (x\<lparr>owning_user := user_id v\<rparr>)
        \<and> transfer_of (snd (accept_transfer v tid w)) tid =
            Some (tr\<lparr>to_user := Some (user_id v), t_status := TAccepted\<rparr>)"
    using tr x tt below by blast
next
  assume "fst (accept_transfer v tid w) \<noteq> Succeeded"
  then show "snd (accept_transfer v tid w) = w"
    by (auto simp: accept_transfer_def Let_def split: option.splits if_splits)
next
  fix tr x tt
  assume "find (\<lambda>x. transfer_id x = tid \<and> to_email x = email v \<and> t_status x = TPending)
            (transfers w) = Some tr
        \<and> order_of w (t_order tr) = Some x
        \<and> ticket_type_of w (o_ticket_type x) = Some tt
        \<and> owned_count w (user_id v) (o_ticket_type x) \<ge> max_per_user tt"
  then show "accept_transfer v tid w = (Failed AcceptLimit, w)"
    by (simp add: accept_transfer_def Let_def)
next
  assume "fst (accept_transfer v tid w) \<noteq> Succeeded"
  then show "accept_transfer_commits v tid w = []"
    by (auto simp: accept_transfer_def accept_transfer_commits_def Let_def
          split: option.splits if_splits)
next
  assume ok: "fst (accept_transfer v tid w) = Succeeded"
  then obtain tr x where
    tr: "find (\<lambda>x. transfer_id x = tid \<and> to_email x = email v \<and> t_status x = TPending)
            (transfers w) = Some tr"
    and x: "order_of w (t_order tr) = Some x"
    and commits: "accept_transfer_commits v tid w =
            [save_order (x\<lparr>owning_user := user_id v\<rparr>) w, snd (accept_transfer v tid w)]"
    by (auto simp: accept_transfer_def accept_transfer_commits_def Let_def
          split: option.splits if_splits)
  have xid: "order_id x = t_order tr"
    using x by (auto simp: order_of_def find_Some_iff)
  have "order_of (save_order (x\<lparr>owning_user := user_id v\<rparr>) w) (t_order tr) =
          Some (x\<lparr>owning_user := user_id v\<rparr>)"
    using find_after_replace [of order_id "t_order tr" "orders w" x "x\<lparr>owning_user := user_id v\<rparr>"]
      x xid
    by (simp add: order_of_def save_order_def)
  moreover have "transfers (save_order (x\<lparr>owning_user := user_id v\<rparr>) w) = transfers w"
    by (simp add: save_order_def)
  ultimately show "\<exists>tr x.
          find (\<lambda>x. transfer_id x = tid \<and> to_email x = email v \<and> t_status x = TPending)
            (transfers w) = Some tr
        \<and> order_of w (t_order tr) = Some x
        \<and> accept_transfer_commits v tid w =
            [save_order (x\<lparr>owning_user := user_id v\<rparr>) w, snd (accept_transfer v tid w)]
        \<and> order_of (save_order (x\<lparr>owning_user := user_id v\<rparr>) w) (t_order tr) =
            Some (x\<lparr>owning_user := user_id v\<rparr>)
        \<and> transfers (save_order (x\<lparr>owning_user := user_id v\<rparr>) w) = transfers w"
    using tr x commits by blast
qed

theorem accept_transfer_checked_witness:
  "fst (accept_transfer bob 1 offered_world) = Succeeded
   \<and> (\<exists>tr x tt.
          find (\<lambda>x. transfer_id x = 1 \<and> to_email x = email bob \<and> t_status x = TPending)
            (transfers offered_world) = Some tr
        \<and> order_of offered_world (t_order tr) = Some x
        \<and> ticket_type_of offered_world (o_ticket_type x) = Some tt
        \<and> owned_count offered_world (user_id bob) (o_ticket_type x) < max_per_user tt
        \<and> order_of (snd (accept_transfer bob 1 offered_world)) (t_order tr) =
            Some (x\<lparr>owning_user := user_id bob\<rparr>)
        \<and> transfer_of (snd (accept_transfer bob 1 offered_world)) 1 =
            Some (tr\<lparr>to_user := Some (user_id bob), t_status := TAccepted\<rparr>))
   \<and> (\<exists>tr x.
          find (\<lambda>x. transfer_id x = 1 \<and> to_email x = email bob \<and> t_status x = TPending)
            (transfers offered_world) = Some tr
        \<and> order_of offered_world (t_order tr) = Some x
        \<and> accept_transfer_commits bob 1 offered_world =
            [save_order (x\<lparr>owning_user := user_id bob\<rparr>) offered_world,
             snd (accept_transfer bob 1 offered_world)]
        \<and> order_of (save_order (x\<lparr>owning_user := user_id bob\<rparr>) offered_world) (t_order tr) =
            Some (x\<lparr>owning_user := user_id bob\<rparr>)
        \<and> transfers (save_order (x\<lparr>owning_user := user_id bob\<rparr>) offered_world) =
            transfers offered_world)
   \<and> order_of (snd (accept_transfer bob 1 offered_world)) 1 =
        Some (offered_order\<lparr>owning_user := 2\<rparr>)
   \<and> transfer_of (snd (accept_transfer bob 1 offered_world)) 1 =
        Some (offer\<lparr>t_status := TAccepted\<rparr>)
   \<and> find (\<lambda>x. transfer_id x = 1 \<and> to_email x = email bob \<and> t_status x = TPending)
        (transfers filled_world) = Some offer
   \<and> order_of filled_world (t_order offer) = Some offered_order
   \<and> ticket_type_of filled_world (o_ticket_type offered_order) = Some general_admission
   \<and> owned_count filled_world (user_id bob) (o_ticket_type offered_order)
        \<ge> max_per_user general_admission
   \<and> fst (accept_transfer bob 1 filled_world) \<noteq> Succeeded
   \<and> snd (accept_transfer bob 1 filled_world) = filled_world
   \<and> accept_transfer_commits bob 1 filled_world = []
   \<and> accept_transfer bob 1 filled_world = (Failed AcceptLimit, filled_world)"
proof -
  have ok: "fst (accept_transfer bob 1 offered_world) = Succeeded"
    by code_simp
  note first = accept_transfer_checked [of bob 1 offered_world, THEN conjunct1, rule_format, OF ok]
  note writes = accept_transfer_checked
    [of bob 1 offered_world, THEN conjunct2, THEN conjunct2, THEN conjunct2, THEN conjunct2,
     rule_format, OF ok]
  have o1: "order_of (snd (accept_transfer bob 1 offered_world)) 1 =
        Some (offered_order\<lparr>owning_user := 2\<rparr>)"
    by code_simp
  have t1: "transfer_of (snd (accept_transfer bob 1 offered_world)) 1 =
        Some (offer\<lparr>t_status := TAccepted\<rparr>)"
    by code_simp
  have f: "find (\<lambda>x. transfer_id x = 1 \<and> to_email x = email bob \<and> t_status x = TPending)
        (transfers filled_world) = Some offer"
    by code_simp
  have x: "order_of filled_world (t_order offer) = Some offered_order"
    by code_simp
  have tt: "ticket_type_of filled_world (o_ticket_type offered_order) = Some general_admission"
    by code_simp
  have full: "owned_count filled_world (user_id bob) (o_ticket_type offered_order)
        \<ge> max_per_user general_admission"
    by code_simp
  have limit: "accept_transfer bob 1 filled_world = (Failed AcceptLimit, filled_world)"
    using accept_transfer_checked [of bob 1 filled_world, THEN conjunct2, THEN conjunct2,
            THEN conjunct1, rule_format, of offer offered_order general_admission] f x tt full
    by blast
  have failed: "fst (accept_transfer bob 1 filled_world) \<noteq> Succeeded"
    using limit by simp
  have same: "snd (accept_transfer bob 1 filled_world) = filled_world"
    using accept_transfer_checked [of bob 1 filled_world, THEN conjunct2, THEN conjunct1] failed
    by blast
  have unwritten: "accept_transfer_commits bob 1 filled_world = []"
    using accept_transfer_checked [of bob 1 filled_world, THEN conjunct2, THEN conjunct2,
            THEN conjunct2, THEN conjunct1] failed
    by blast
  show ?thesis
    by (intro conjI) (fact ok first writes o1 t1 f x tt full failed same unwritten limit)+
qed

text \<open>
  Bob accepts Alice's offer. After the first of the two writes the ticket is Bob's while
  the transfer is still pending: a state in which only the order was updated.
\<close>

theorem accept_transfer_checked_counterexample:
  "accept_transfer_commits bob 1 offered_world =
     [save_order (offered_order\<lparr>owning_user := 2\<rparr>) offered_world,
      snd (accept_transfer bob 1 offered_world)]
   \<and> owning_user offered_order = 1
   \<and> order_of offered_world 1 = Some offered_order
   \<and> transfer_of offered_world 1 = Some offer
   \<and> order_of (save_order (offered_order\<lparr>owning_user := 2\<rparr>) offered_world) 1 =
       Some (offered_order\<lparr>owning_user := 2\<rparr>)
   \<and> transfer_of (save_order (offered_order\<lparr>owning_user := 2\<rparr>) offered_world) 1 = Some offer
   \<and> t_status offer = TPending"
  by code_simp

text \<open>
  C8 (amended). Whenever \<open>transfer_ticket\<close> fails, for whatever reason, no transfer row is
  created: the state is unchanged. It succeeds only for a completed order of the
  initiator that has no pending transfer and a target email that, trimmed and lowercased
  by the library, is non-empty, is not the initiator's own and resolves to a user whose
  pending and completed orders of the order's ticket type plus the pending transfers
  addressed to that email for the same ticket type are below \<open>max_per_user\<close>. For such
  an order and email: if that sum reaches \<open>max_per_user\<close>, the initiation is rejected
  with the limit error; otherwise one pending transfer is added that records the order,
  the initiator, the email and the resolved recipient.
\<close>

theorem transfer_ticket_recipient_limit:
  "(fst (transfer_ticket n u oid e w) \<noteq> Succeeded \<longrightarrow> snd (transfer_ticket n u oid e w) = w)
   \<and> (fst (transfer_ticket n u oid e w) = Succeeded \<longrightarrow>
        (\<exists>x target recipient tt.
            find (\<lambda>x. order_id x = oid \<and> owning_user x = user_id u \<and> o_status x = Completed)
              (orders w) = Some x
          \<and> \<not> has_pending_transfer w x
          \<and> n (case e of None \<Rightarrow> [] | Some s \<Rightarrow> s) = target
          \<and> target \<noteq> [] \<and> target \<noteq> email u
          \<and> find (\<lambda>r. email r = target) (users w) = Some recipient
          \<and> ticket_type_of w (o_ticket_type x) = Some tt
          \<and> owned_count w (user_id recipient) (o_ticket_type x)
               + pending_transfers_to w target (o_ticket_type x) < max_per_user tt))
   \<and> (\<forall>x target recipient tt.
          find (\<lambda>x. order_id x = oid \<and> owning_user x = user_id u \<and> o_status x = Completed)
            (orders w) = Some x
        \<and> \<not> has_pending_transfer w x
        \<and> n (case e of None \<Rightarrow> [] | Some s \<Rightarrow> s) = target
        \<and> target \<noteq> [] \<and> target \<noteq> email u
        \<and> find (\<lambda>r. email r = target) (users w) = Some recipient
        \<and> ticket_type_of w (o_ticket_type x) = Some tt
        \<longrightarrow>
          (owned_count w (user_id recipient) (o_ticket_type x)
             + pending_transfers_to w target (o_ticket_type x) \<ge> max_per_user tt \<longrightarrow>
           transfer_ticket n u oid e w = (Failed RecipientLimit, w))
        \<and> (owned_count w (user_id recipient) (o_ticket_type x)
             + pending_transfers_to w target (o_ticket_type x) < max_per_user tt \<longrightarrow>
           transfer_ticket n u oid e w =
             (Succeeded,
              w\<lparr>transfers := transfers w @
                  [\<lparr>transfer_id = fresh_id (map transfer_id (transfers w)),
                    t_order = order_id x, from_user = user_id u, to_email = target,
                    to_user = Some (user_id recipient), t_status = TPending\<rparr>]\<rparr>)))"
proof (intro conjI impI allI)
  assume "fst (transfer_ticket n u oid e w) \<noteq> Succeeded"
  then show "snd (transfer_ticket n u oid e w) = w"
    by (auto simp: transfer_ticket_def Let_def split: option.splits if_splits)
next
  assume "fst (transfer_ticket n u oid e w) = Succeeded"
  then show "\<exists>x target recipient tt.
            find (\<lambda>x. order_id x = oid \<and> owning_user x = user_id u \<and> o_status x = Completed)
              (orders w) = Some x
          \<and> \<not> has_pending_transfer w x
          \<and> n (case e of None \<Rightarrow> [] | Some s \<Rightarrow> s) = target
          \<and> target \<noteq> [] \<and> target \<noteq> email u
          \<and> find (\<lambda>r. email r = target) (users w) = Some recipient
          \<and> ticket_type_of w (o_ticket_type x) = Some tt
          \<and> owned_count w (user_id recipient) (o_ticket_type x)
               + pending_transfers_to w target (o_ticket_type x) < max_per_user tt"
    by (auto simp: transfer_ticket_def Let_def split: option.splits if_splits)
next
  fix x target recipient tt
  assume pre: "find (\<lambda>x. order_id x = oid \<and> owning_user x = user_id u \<and> o_status x = Completed)
            (orders w) = Some x
        \<and> \<not> has_pending_transfer w x
        \<and> n (case e of None \<Rightarrow> [] | Some s \<Rightarrow> s) = target
        \<and> target \<noteq> [] \<and> target \<noteq> email u
        \<and> find (\<lambda>r. email r = target) (users w) = Some recipient
        \<and> ticket_type_of w (o_ticket_type x) = Some tt"
    and "owned_count w (user_id recipient) (o_ticket_type x)
          + pending_transfers_to w target (o_ticket_type x) \<ge> max_per_user tt"
  then show "transfer_ticket n u oid e w = (Failed RecipientLimit, w)"
    by (simp add: transfer_ticket_def Let_def)
next
  fix x target recipient tt
  assume pre: "find (\<lambda>x. order_id x = oid \<and> owning_user x = user_id u \<and> o_status x = Completed)
            (orders w) = Some x
        \<and> \<not> has_pending_transfer w x
        \<and> n (case e of None \<Rightarrow> [] | Some s \<Rightarrow> s) = target
        \<and> target \<noteq> [] \<and> target \<noteq> email u
        \<and> find (\<lambda>r. email r = target) (users w) = Some recipient
        \<and> ticket_type_of w (o_ticket_type x) = Some tt"
    and "owned_count w (user_id recipient) (o_ticket_type x)
          + pending_transfers_to w target (o_ticket_type x) < max_per_user tt"
  then show "transfer_ticket n u oid e w =
          (Succeeded,
           w\<lparr>transfers := transfers w @
               [\<lparr>transfer_id = fresh_id (map transfer_id (transfers w)),
                 t_order = order_id x, from_user = user_id u, to_email = target,
                 to_user = Some (user_id recipient), t_status = TPending\<rparr>]\<rparr>)"
    by (simp add: transfer_ticket_def Let_def)
qed

theorem transfer_ticket_recipient_limit_witness:
  "find (\<lambda>x. order_id x = 1 \<and> owning_user x = user_id alice \<and> o_status x = Completed)
     (orders paid_world) = Some offered_order
   \<and> \<not> has_pending_transfer paid_world offered_order
   \<and> ascii_strip_lower (case Some '' Bob@Example.org '' of None \<Rightarrow> [] | Some s \<Rightarrow> s) =
        ''bob@example.org''
   \<and> ''bob@example.org'' \<noteq> [] \<and> ''bob@example.org'' \<noteq> email alice
   \<and> find (\<lambda>r. email r = ''bob@example.org'') (users paid_world) = Some bob
   \<and> ticket_type_of paid_world (o_ticket_type offered_order) = Some general_admission
   \<and> owned_count paid_world (user_id bob) (o_ticket_type offered_order)
        + pending_transfers_to paid_world ''bob@example.org'' (o_ticket_type offered_order)
        < max_per_user general_admission
   \<and> transfer_ticket ascii_strip_lower alice 1 (Some '' Bob@Example.org '') paid_world =
        (Succeeded, paid_world\<lparr>transfers := [offer]\<rparr>)
   \<and> find (\<lambda>x. order_id x = 2 \<and> owning_user x = user_id alice \<and> o_status x = Completed)
        (orders offered_world) = Some second_order
   \<and> \<not> has_pending_transfer offered_world second_order
   \<and> find (\<lambda>r. email r = ''bob@example.org'') (users offered_world) = Some bob
   \<and> ticket_type_of offered_world (o_ticket_type second_order) = Some general_admission
   \<and> owned_count offered_world (user_id bob) (o_ticket_type second_order)
        + pending_transfers_to offered_world ''bob@example.org'' (o_ticket_type second_order)
        \<ge> max_per_user general_admission
   \<and> transfer_ticket ascii_strip_lower alice 2 (Some '' Bob@Example.org '') offered_world =
        (Failed RecipientLimit, offered_world)
   \<and> fst (transfer_ticket ascii_strip_lower alice 1 (Some ''carol@example.org'') offered_world)
        \<noteq> Succeeded
   \<and> snd (transfer_ticket ascii_strip_lower alice 1 (Some ''carol@example.org'') offered_world)
        = offered_world"
proof -
  have a1: "find (\<lambda>x. order_id x = 1 \<and> owning_user x = user_id alice \<and> o_status x = Completed)
     (orders paid_world) = Some offered_order" by code_simp
  have a2: "\<not> has_pending_transfer paid_world offered_order" by code_simp
  have a3: "ascii_strip_lower (case Some '' Bob@Example.org '' of None \<Rightarrow> [] | Some s \<Rightarrow> s) =
        ''bob@example.org''" by code_simp
  have a4: "''bob@example.org'' \<noteq> []" by simp
  have a5: "''bob@example.org'' \<noteq> email alice" by code_simp
  have a6: "find (\<lambda>r. email r = ''bob@example.org'') (users paid_world) = Some bob" by code_simp
  have a7: "ticket_type_of paid_world (o_ticket_type offered_order) = Some general_admission"
    by code_simp
  have a8: "owned_count paid_world (user_id bob) (o_ticket_type offered_order)
        + pending_transfers_to paid_world ''bob@example.org'' (o_ticket_type offered_order)
        < max_per_user general_admission" by code_simp
  note first = transfer_ticket_recipient_limit
    [of ascii_strip_lower alice 1 "Some '' Bob@Example.org ''" paid_world,
     THEN conjunct2, THEN conjunct2, rule_format,
     of offered_order "''bob@example.org''" bob general_admission]
  have fresh: "paid_world\<lparr>transfers := transfers paid_world @
               [\<lparr>transfer_id = fresh_id (map transfer_id (transfers paid_world)),
                 t_order = order_id offered_order, from_user = user_id alice,
                 to_email = ''bob@example.org'',
                 to_user = Some (user_id bob), t_status = TPending\<rparr>]\<rparr>
               = paid_world\<lparr>transfers := [offer]\<rparr>" by code_simp
  have "transfer_ticket ascii_strip_lower alice 1 (Some '' Bob@Example.org '') paid_world =
          (Succeeded,
           paid_world\<lparr>transfers := transfers paid_world @
               [\<lparr>transfer_id = fresh_id (map transfer_id (transfers paid_world)),
                 t_order = order_id offered_order, from_user = user_id alice,
                 to_email = ''bob@example.org'',
                 to_user = Some (user_id bob), t_status = TPending\<rparr>]\<rparr>)"
    using first a1 a2 a3 a4 a5 a6 a7 a8 by blast
  then have created: "transfer_ticket ascii_strip_lower alice 1 (Some '' Bob@Example.org '') paid_world =
        (Succeeded, paid_world\<lparr>transfers := [offer]\<rparr>)"
    using fresh by simp
  have b1: "find (\<lambda>x. order_id x = 2 \<and> owning_user x = user_id alice \<and> o_status x = Completed)
        (orders offered_world) = Some second_order" by code_simp
  have b2: "\<not> has_pending_transfer offered_world second_order" by code_simp
  have b6: "find (\<lambda>r. email r = ''bob@example.org'') (users offered_world) = Some bob"
    by code_simp
  have b7: "ticket_type_of offered_world (o_ticket_type second_order) = Some general_admission"
    by code_simp
  have b8: "owned_count offered_world (user_id bob) (o_ticket_type second_order)
        + pending_transfers_to offered_world ''bob@example.org'' (o_ticket_type second_order)
        \<ge> max_per_user general_admission" by code_simp
  note second = transfer_ticket_recipient_limit
    [of ascii_strip_lower alice 2 "Some '' Bob@Example.org ''" offered_world,
     THEN conjunct2, THEN conjunct2, rule_format,
     of second_order "''bob@example.org''" bob general_admission]
  have rejected: "transfer_ticket ascii_strip_lower alice 2 (Some '' Bob@Example.org '') offered_world =
        (Failed RecipientLimit, offered_world)"
    using second b1 b2 a3 a4 a5 b6 b7 b8 by blast
  have c1: "fst (transfer_ticket ascii_strip_lower alice 1 (Some ''carol@example.org'') offered_world)
        \<noteq> Succeeded" by code_simp
  have c2: "snd (transfer_ticket ascii_strip_lower alice 1 (Some ''carol@example.org'') offered_world)
        = offered_world"
    using transfer_ticket_recipient_limit
      [of ascii_strip_lower alice 1 "Some ''carol@example.org''" offered_world, THEN conjunct1] c1
    by blast
  show ?thesis
    using a1 a2 a3 a4 a5 a6 a7 a8 created b1 b2 b6 b7 b8 rejected c1 c2 by blast
qed

text \<open>
  Alice's first ticket is already offered to Bob. Carol is far from her limit, and yet a
  second offer of the same ticket, to Carol, creates no transfer.
\<close>

theorem transfer_ticket_recipient_limit_counterexample:
  "carol \<in> set (users offered_world)
   \<and> email carol = ''carol@example.org''
   \<and> owned_count offered_world (user_id carol) (o_ticket_type offered_order)
        + pending_transfers_to offered_world ''carol@example.org'' (o_ticket_type offered_order)
        < max_per_user general_admission
   \<and> transfer_ticket ascii_strip_lower alice 1 (Some ''carol@example.org'') offered_world =
        (Failed PendingTransferExists, offered_world)"
  by code_simp

section \<open>Properties of shift signup\<close>

lemma find_shift_id: "find_shift w ev sid = Some sh \<Longrightarrow> shift_id sh = sid \<and> sh \<in> set (shift_rows w)"
  by (auto simp: find_shift_def find_Some_iff)

text \<open>
  C5 (amended). \<open>shift_signup\<close> checks, in this order: an active event exists; the user
  holds a completed order of a ticket type of the event; when the event's
  \<open>max_shifts_per_user\<close> is nonzero, the user's assignments in the event are below it; the
  shift id resolves to a shift of the event; the user has no assignment for the shift;
  the shift has a spot left. The reason reported is that of the first check in this
  order that fails, the state is then unchanged, and when all hold one assignment of the
  user to the shift is added.
\<close>

theorem shift_signup_check_order:
  "shift_signup u sid w =
     (case signup_failure_lookup_third u sid w of
        Some e \<Rightarrow> (Failed e, w)
      | None \<Rightarrow>
          (Succeeded,
           w\<lparr>assignments := assignments w @
               [\<lparr>assignment_id = fresh_id (map assignment_id (assignments w)),
                 a_shift = sid, a_user = user_id u\<rparr>]\<rparr>))
   \<and> (fst (shift_signup u sid w) \<noteq> Succeeded \<longrightarrow> snd (shift_signup u sid w) = w)"
proof (cases "get_active w")
  case None
  then show ?thesis
    by (simp add: signup_failure_lookup_third_def shift_signup_def)
next
  case (Some ev)
  show ?thesis
  proof (cases "find_shift w ev sid")
    case None
    then show ?thesis using Some
      by (simp add: signup_failure_lookup_third_def shift_signup_def first_failed_def
            holds_ticket_def below_shift_cap_def shift_exists_def not_signed_up_def
            has_spot_def not_less)
  next
    case (Some sh)
    then have "shift_id sh = sid" using find_shift_id by blast
    then show ?thesis using Some \<open>get_active w = Some ev\<close>
      by (simp add: signup_failure_lookup_third_def shift_signup_def first_failed_def
            holds_ticket_def below_shift_cap_def shift_exists_def not_signed_up_def
            has_spot_def not_less)
  qed
qed

theorem shift_signup_check_order_witness:
  "signup_failure_lookup_third carol 99 shift_world = Some TicketRequired
   \<and> shift_signup carol 99 shift_world = (Failed TicketRequired, shift_world)
   \<and> fst (shift_signup carol 99 shift_world) \<noteq> Succeeded
   \<and> snd (shift_signup carol 99 shift_world) = shift_world
   \<and> signup_failure_lookup_third alice 1 shift_world = None
   \<and> shift_signup alice 1 shift_world =
       (Succeeded,
        shift_world\<lparr>assignments := [\<lparr>assignment_id = 1, a_shift = 1, a_user = 1\<rparr>]\<rparr>)"
proof -
  have c: "signup_failure_lookup_third carol 99 shift_world = Some TicketRequired"
    by code_simp
  have a: "signup_failure_lookup_third alice 1 shift_world = None"
    by code_simp
  have r: "shift_signup carol 99 shift_world = (Failed TicketRequired, shift_world)"
    using shift_signup_check_order [of carol 99 shift_world, THEN conjunct1] c by simp
  have f: "fst (shift_signup carol 99 shift_world) \<noteq> Succeeded"
    using r by simp
  have s: "snd (shift_signup carol 99 shift_world) = shift_world"
    using shift_signup_check_order [of carol 99 shift_world, THEN conjunct2] f by blast
  have new: "shift_world\<lparr>assignments := assignments shift_world @
               [\<lparr>assignment_id = fresh_id (map assignment_id (assignments shift_world)),
                 a_shift = 1, a_user = user_id alice\<rparr>]\<rparr>
             = shift_world\<lparr>assignments := [\<lparr>assignment_id = 1, a_shift = 1, a_user = 1\<rparr>]\<rparr>"
    by code_simp
  have ok: "shift_signup alice 1 shift_world =
       (Succeeded,
        shift_world\<lparr>assignments := [\<lparr>assignment_id = 1, a_shift = 1, a_user = 1\<rparr>]\<rparr>)"
    using shift_signup_check_order [of alice 1 shift_world, THEN conjunct1] a new by simp
  show ?thesis using c r f s a ok by blast
qed

text \<open>
  Carol holds no ticket and asks for a shift that does not exist. In the order of the
  specification the reason is the missing shift; the view reports the missing ticket.
\<close>

theorem shift_signup_check_order_counterexample:
  "get_active shift_world = Some festival
   \<and> find_shift shift_world festival 99 = None
   \<and> \<not> has_ticket shift_world festival (user_id carol)
   \<and> signup_failure_spec_order carol 99 shift_world = Some Http404
   \<and> shift_signup carol 99 shift_world = (Failed TicketRequired, shift_world)"
  by code_simp

section \<open>Shift capacity\<close>

lemma spots_after_append:
  "spots_remaining (w\<lparr>assignments := assignments w @ [a]\<rparr>) sh =
     spots_remaining w sh - (if a_shift a = shift_id sh then 1 else 0)"
  by (simp add: spots_remaining_def)

lemma spots_after_delete:
  "spots_remaining w sh \<le> spots_remaining (w\<lparr>assignments := filter Q (assignments w)\<rparr>) sh"
proof -
  have "filter (\<lambda>a. a_shift a = shift_id sh) (filter Q (assignments w))
        = filter Q (filter (\<lambda>a. a_shift a = shift_id sh) (assignments w))"
    by (simp add: conj_commute)
  then have "length (filter (\<lambda>a. a_shift a = shift_id sh) (filter Q (assignments w)))
             \<le> length (filter (\<lambda>a. a_shift a = shift_id sh) (assignments w))"
    by (simp only: length_filter_le)
  then show ?thesis by (simp add: spots_remaining_def)
qed

lemma shift_signup_cases:
  "shift_signup u sid w = (fst (shift_signup u sid w), w) \<and> fst (shift_signup u sid w) \<noteq> Succeeded
   \<or> (\<exists>ev sh. get_active w = Some ev \<and> find_shift w ev sid = Some sh \<and> spots_remaining w sh > 0
         \<and> shift_signup u sid w =
             (Succeeded,
              w\<lparr>assignments := assignments w @
                  [\<lparr>assignment_id = fresh_id (map assignment_id (assignments w)),
                    a_shift = shift_id sh, a_user = user_id u\<rparr>]\<rparr>))"
  by (auto simp: shift_signup_def split: option.splits)

lemma same_shift:
  "distinct (map shift_id xs) \<Longrightarrow> a \<in> set xs \<Longrightarrow> b \<in> set xs \<Longrightarrow> shift_id a = shift_id b \<Longrightarrow> a = b"
  by (meson distinct_map inj_onD)

lemma shift_signup_spots:
  assumes keys: "distinct (map shift_id (shift_rows w))"
    and inv: "\<forall>sh\<in>set (shift_rows w). spots_remaining w sh \<ge> 0"
  shows "shift_rows (snd (shift_signup u sid w)) = shift_rows w
         \<and> (\<forall>sh\<in>set (shift_rows w). spots_remaining (snd (shift_signup u sid w)) sh \<ge> 0)"
proof -
  from shift_signup_cases [of u sid w] show ?thesis
  proof
    assume "shift_signup u sid w = (fst (shift_signup u sid w), w)
            \<and> fst (shift_signup u sid w) \<noteq> Succeeded"
    then have "snd (shift_signup u sid w) = w" by (metis snd_conv)
    then show ?thesis using inv by simp
  next
    assume "\<exists>ev sh. get_active w = Some ev \<and> find_shift w ev sid = Some sh
              \<and> spots_remaining w sh > 0
              \<and> shift_signup u sid w =
                  (Succeeded,
                   w\<lparr>assignments := assignments w @
                       [\<lparr>assignment_id = fresh_id (map assignment_id (assignments w)),
                         a_shift = shift_id sh, a_user = user_id u\<rparr>]\<rparr>)"
    then obtain ev sh0 where found: "find_shift w ev sid = Some sh0"
      and spot: "spots_remaining w sh0 > 0"
      and res: "shift_signup u sid w =
                  (Succeeded,
                   w\<lparr>assignments := assignments w @
                       [\<lparr>assignment_id = fresh_id (map assignment_id (assignments w)),
                         a_shift = shift_id sh0, a_user = user_id u\<rparr>]\<rparr>)"
      by blast
    have in0: "sh0 \<in> set (shift_rows w)" using found find_shift_id by blast
    have "\<forall>sh\<in>set (shift_rows w). spots_remaining (snd (shift_signup u sid w)) sh \<ge> 0"
    proof
      fix sh assume sh: "sh \<in> set (shift_rows w)"
      show "spots_remaining (snd (shift_signup u sid w)) sh \<ge> 0"
      proof (cases "shift_id sh0 = shift_id sh")
        case True
        then have "sh0 = sh" using same_shift [OF keys in0 sh] by simp
        then show ?thesis using spot by (simp add: res spots_after_append)
      next
        case False
        then show ?thesis using inv sh by (simp add: res spots_after_append)
      qed
    qed
    then show ?thesis by (simp add: res)
  qed
qed

lemma shift_cancel_spots:
  assumes inv: "\<forall>sh\<in>set (shift_rows w). spots_remaining w sh \<ge> 0"
  shows "shift_rows (snd (shift_cancel u sid w)) = shift_rows w
         \<and> (\<forall>sh\<in>set (shift_rows w). spots_remaining (snd (shift_cancel u sid w)) sh \<ge> 0)"
proof -
  have "snd (shift_cancel u sid w) = w
        \<or> (\<exists>Q. snd (shift_cancel u sid w) = w\<lparr>assignments := filter Q (assignments w)\<rparr>)"
    by (auto simp: shift_cancel_def split: option.splits)
  then show ?thesis
  proof
    assume "snd (shift_cancel u sid w) = w"
    then show ?thesis using inv by simp
  next
    assume "\<exists>Q. snd (shift_cancel u sid w) = w\<lparr>assignments := filter Q (assignments w)\<rparr>"
    then obtain Q where q: "snd (shift_cancel u sid w) = w\<lparr>assignments := filter Q (assignments w)\<rparr>"
      by blast
    have "\<forall>sh\<in>set (shift_rows w). spots_remaining (snd (shift_cancel u sid w)) sh \<ge> 0"
    proof
      fix sh assume "sh \<in> set (shift_rows w)"
      then have "0 \<le> spots_remaining w sh" using inv by simp
      also have "\<dots> \<le> spots_remaining (w\<lparr>assignments := filter Q (assignments w)\<rparr>) sh"
        by (rule spots_after_delete)
      finally show "spots_remaining (snd (shift_cancel u sid w)) sh \<ge> 0" by (simp add: q)
    qed
    then show ?thesis by (simp add: q)
  qed
qed

lemma run_shift_ops_spots:
  "distinct (map shift_id (shift_rows w)) \<Longrightarrow>
   \<forall>sh\<in>set (shift_rows w). spots_remaining w sh \<ge> 0 \<Longrightarrow>
   shift_rows (run_shift_ops cs w) = shift_rows w
   \<and> (\<forall>sh\<in>set (shift_rows w). spots_remaining (run_shift_ops cs w) sh \<ge> 0)"
  unfolding run_shift_ops_def
proof (induction cs arbitrary: w)
  case Nil
  then show ?case by simp
next
  case (Cons c cs)
  have step: "shift_rows (shift_step c w) = shift_rows w
         \<and> (\<forall>sh\<in>set (shift_rows w). spots_remaining (shift_step c w) sh \<ge> 0)"
  proof (cases c)
    case (Signup u sid)
    then show ?thesis using shift_signup_spots [OF Cons.prems] by simp
  next
    case (Cancel u sid)
    then show ?thesis using shift_cancel_spots [OF Cons.prems(2)] by simp
  qed
  then have "distinct (map shift_id (shift_rows (shift_step c w)))"
    and "\<forall>sh\<in>set (shift_rows (shift_step c w)). spots_remaining (shift_step c w) sh \<ge> 0"
    using Cons.prems by simp_all
  from Cons.IH [OF this] show ?case using step by simp
qed

text \<open>
  C7. \<open>spots_remaining\<close> of a shift is its capacity minus the number of assignment rows
  of the shift in the current state. From a state with unique shift keys in which every
  shift has \<open>spots_remaining \<ge> 0\<close>, every sequence of signups and cancellations run one
  after the other leads to a state in which every shift has \<open>spots_remaining \<ge> 0\<close>. A
  signup for a shift with \<open>spots_remaining = 0\<close> is rejected and leaves the state, hence
  the assignments, unchanged.
\<close>

theorem spots_remaining_never_negative:
  assumes keys: "distinct (map shift_id (shift_rows w))"
    and inv: "\<forall>sh\<in>set (shift_rows w). spots_remaining w sh \<ge> 0"
  shows "(\<forall>sh. spots_remaining w sh =
            int (capacity sh) - int (length (filter (\<lambda>a. a_shift a = shift_id sh) (assignments w))))
     \<and> (\<forall>sh\<in>set (shift_rows (run_shift_ops cs w)). spots_remaining (run_shift_ops cs w) sh \<ge> 0)
     \<and> (\<forall>sh\<in>set (shift_rows w). spots_remaining w sh = 0 \<longrightarrow>
           fst (shift_signup u (shift_id sh) w) \<noteq> Succeeded
         \<and> snd (shift_signup u (shift_id sh) w) = w)"
proof (intro conjI ballI allI impI)
  fix sh
  show "spots_remaining w sh =
          int (capacity sh) - int (length (filter (\<lambda>a. a_shift a = shift_id sh) (assignments w)))"
    by (simp add: spots_remaining_def)
next
  fix sh assume "sh \<in> set (shift_rows (run_shift_ops cs w))"
  then show "spots_remaining (run_shift_ops cs w) sh \<ge> 0"
    using run_shift_ops_spots [OF keys inv, of cs] by simp
next
  fix sh assume sh: "sh \<in> set (shift_rows w)" and zero: "spots_remaining w sh = 0"
  have full: "\<And>ev sh'. find_shift w ev (shift_id sh) = Some sh' \<Longrightarrow> spots_remaining w sh' \<le> 0"
  proof -
    fix ev sh' assume "find_shift w ev (shift_id sh) = Some sh'"
    then have "shift_id sh' = shift_id sh" "sh' \<in> set (shift_rows w)"
      using find_shift_id by blast+
    then have "sh' = sh" using same_shift [OF keys _ sh] by blast
    then show "spots_remaining w sh' \<le> 0" using zero by simp
  qed
  from shift_signup_cases [of u "shift_id sh" w] full
  have fail: "shift_signup u (shift_id sh) w = (fst (shift_signup u (shift_id sh) w), w)
        \<and> fst (shift_signup u (shift_id sh) w) \<noteq> Succeeded"
    by fastforce
  then show "fst (shift_signup u (shift_id sh) w) \<noteq> Succeeded" by simp
  from fail show "snd (shift_signup u (shift_id sh) w) = w" by (metis snd_conv)
qed

theorem spots_remaining_never_negative_witness:
  "distinct (map shift_id (shift_rows shift_world))
   \<and> shift_rows shift_world = [morning, noon]
   \<and> spots_remaining shift_world morning = 1 \<and> spots_remaining shift_world noon = 1
   \<and> shift_rows (run_shift_ops shift_ops shift_world) = [morning, noon]
   \<and> spots_remaining (run_shift_ops shift_ops shift_world) morning \<ge> 0
   \<and> spots_remaining (run_shift_ops shift_ops shift_world) noon \<ge> 0
   \<and> map (spots_remaining (run_shift_ops shift_ops shift_world))
         (shift_rows (run_shift_ops shift_ops shift_world)) = [0, 1]
   \<and> distinct (map shift_id (shift_rows full_world))
   \<and> shift_rows full_world = [morning, noon]
   \<and> spots_remaining full_world morning = 0 \<and> spots_remaining full_world noon = 1
   \<and> fst (shift_signup bob (shift_id morning) full_world) \<noteq> Succeeded
   \<and> snd (shift_signup bob (shift_id morning) full_world) = full_world
   \<and> shift_signup bob 1 full_world = (Failed ShiftFull, full_world)"
proof -
  have k1: "distinct (map shift_id (shift_rows shift_world))" by code_simp
  have rows1: "shift_rows shift_world = [morning, noon]" by code_simp
  have s1: "spots_remaining shift_world morning = 1" "spots_remaining shift_world noon = 1"
    by code_simp+
  have i1: "\<forall>sh\<in>set (shift_rows shift_world). spots_remaining shift_world sh \<ge> 0"
    unfolding rows1 by (simp add: s1)
  note run = spots_remaining_never_negative [OF k1 i1, of shift_ops, THEN conjunct2, THEN conjunct1]
  have rows3: "shift_rows (run_shift_ops shift_ops shift_world) = [morning, noon]" by code_simp
  have m3: "spots_remaining (run_shift_ops shift_ops shift_world) morning \<ge> 0"
    and n3: "spots_remaining (run_shift_ops shift_ops shift_world) noon \<ge> 0"
    using run unfolding rows3 by simp_all
  have after: "map (spots_remaining (run_shift_ops shift_ops shift_world))
         (shift_rows (run_shift_ops shift_ops shift_world)) = [0, 1]" by code_simp
  have k2: "distinct (map shift_id (shift_rows full_world))" by code_simp
  have rows2: "shift_rows full_world = [morning, noon]" by code_simp
  have s2: "spots_remaining full_world morning = 0" "spots_remaining full_world noon = 1"
    by code_simp+
  have i2: "\<forall>sh\<in>set (shift_rows full_world). spots_remaining full_world sh \<ge> 0"
    unfolding rows2 by (simp add: s2)
  have m: "morning \<in> set (shift_rows full_world)" unfolding rows2 by simp
  note full = spots_remaining_never_negative
    [OF k2 i2, of "[]" bob, THEN conjunct2, THEN conjunct2, rule_format, OF m s2(1)]
  have reason: "shift_signup bob 1 full_world = (Failed ShiftFull, full_world)" by code_simp
  show ?thesis using k1 rows1 s1 rows3 m3 n3 after k2 rows2 s2 full reason by blast
qed

section \<open>The schedule grid\<close>

lemma hour_us_pos: "0 < hour_us"
  by (simp add: hour_us_def)

lemma replace_hour_eq: "replace_hour t = (t div hour_us) * hour_us"
  by (simp add: replace_hour_def minus_mod_eq_div_mult)

lemma replace_hour_le: "replace_hour t \<le> t"
  using hour_us_pos by (simp add: replace_hour_def)

lemma replace_hour_dvd: "hour_us dvd replace_hour t"
  by (simp add: replace_hour_eq)

lemma replace_hour_mono: "a \<le> b \<Longrightarrow> replace_hour a \<le> replace_hour b"
  using hour_us_pos by (simp add: replace_hour_eq zdiv_mono1 mult_right_mono)

lemma hour_ceiling_eq:
  "hour_ceiling t = (if hour_us dvd t then t else (t div hour_us + 1) * hour_us)"
  by (simp add: hour_ceiling_def replace_hour_eq algebra_simps)

lemma hour_ceiling_dvd: "hour_us dvd hour_ceiling t"
  by (simp add: hour_ceiling_eq)

lemma hour_ceiling_ge: "t \<le> hour_ceiling t"
proof (cases "hour_us dvd t")
  case True
  then show ?thesis by (simp add: hour_ceiling_eq)
next
  case False
  have "t = (t div hour_us) * hour_us + t mod hour_us" by simp
  also have "\<dots> \<le> (t div hour_us) * hour_us + hour_us"
    using pos_mod_bound [OF hour_us_pos, of t] by linarith
  finally show ?thesis using False by (simp add: hour_ceiling_eq algebra_simps)
qed

lemma hour_ceiling_least:
  assumes "t \<le> m" and "hour_us dvd m"
  shows "hour_ceiling t \<le> m"
proof (cases "hour_us dvd t")
  case True
  then show ?thesis using assms by (simp add: hour_ceiling_eq)
next
  case False
  from assms(2) obtain k where k: "m = hour_us * k" ..
  have "t \<noteq> m" using False assms(2) by blast
  with assms(1) have "t < hour_us * k" using k by simp
  moreover have "hour_us * (t div hour_us) \<le> t"
    using hour_us_pos by (metis mult_div_mod_eq add_increasing2 order_refl pos_mod_sign)
  ultimately have "hour_us * (t div hour_us) < hour_us * k" by linarith
  then have "t div hour_us < k"
    using hour_us_pos by (simp add: mult_less_cancel_left_pos)
  then have "t div hour_us + 1 \<le> k" by simp
  then have "(t div hour_us + 1) * hour_us \<le> k * hour_us"
    using hour_us_pos by (simp only: mult_right_mono less_imp_le)
  then show ?thesis using False k by (simp add: hour_ceiling_eq mult.commute)
qed

lemma hour_ceiling_mono: "a \<le> b \<Longrightarrow> hour_ceiling a \<le> hour_ceiling b"
proof -
  assume "a \<le> b"
  also have "b \<le> hour_ceiling b" by (rule hour_ceiling_ge)
  finally show ?thesis using hour_ceiling_dvd by (rule hour_ceiling_least)
qed

lemma hour_slots_acc: "hour_slots c m (acc @ acc') = acc @ hour_slots c m acc'"
proof (induction c m acc' arbitrary: acc rule: hour_slots.induct)
  case (1 c m acc')
  show ?case
  proof (cases "c < m")
    case True
    have "hour_slots c m (acc @ acc') = hour_slots (c + hour_us) m (acc @ (acc' @ [c]))"
      using True hour_slots.simps [of c m "acc @ acc'"] by simp
    also have "\<dots> = acc @ hour_slots (c + hour_us) m (acc' @ [c])"
      using "1.IH" [OF True] .
    also have "hour_slots (c + hour_us) m (acc' @ [c]) = hour_slots c m acc'"
      using True hour_slots.simps [of c m acc'] by simp
    finally show ?thesis .
  next
    case False
    then show ?thesis
      using hour_slots.simps [of c m "acc @ acc'"] hour_slots.simps [of c m acc'] by simp
  qed
qed

lemma hour_slots_unfold:
  "hour_slots c m [] = (if c < m then c # hour_slots (c + hour_us) m [] else [])"
proof (cases "c < m")
  case True
  have "hour_slots c m [] = hour_slots (c + hour_us) m ([c] @ [])"
    using True hour_slots.simps [of c m "[]"] by simp
  also have "\<dots> = [c] @ hour_slots (c + hour_us) m []"
    by (rule hour_slots_acc)
  finally show ?thesis using True by simp
next
  case False
  then show ?thesis using hour_slots.simps [of c m "[]"] by simp
qed

lemma hour_slots_set:
  fixes acc :: "int list"
  shows "set (hour_slots c m []) = {h. c \<le> h \<and> h < m \<and> hour_us dvd (h - c)}"
proof (induction c m acc rule: hour_slots.induct)
  case (1 c m acc)
  show ?case
  proof (cases "c < m")
    case True
    have "{h. c \<le> h \<and> h < m \<and> hour_us dvd (h - c)}
          = insert c {h. c + hour_us \<le> h \<and> h < m \<and> hour_us dvd (h - (c + hour_us))}"
    proof (intro set_eqI iffI)
      fix h assume "h \<in> {h. c \<le> h \<and> h < m \<and> hour_us dvd (h - c)}"
      then have h: "c \<le> h" "h < m" "hour_us dvd (h - c)" by simp_all
      show "h \<in> insert c {h. c + hour_us \<le> h \<and> h < m \<and> hour_us dvd (h - (c + hour_us))}"
      proof (cases "h = c")
        case True
        then show ?thesis by simp
      next
        case False
        with h(1) have "0 < h - c" by simp
        with h(3) have "hour_us \<le> h - c" by (rule zdvd_imp_le)
        moreover have "hour_us dvd (h - c - hour_us)" using h(3) by (rule dvd_diff) simp
        ultimately show ?thesis using h(2) by (simp add: algebra_simps)
      qed
    next
      fix h assume "h \<in> insert c {h. c + hour_us \<le> h \<and> h < m \<and> hour_us dvd (h - (c + hour_us))}"
      then consider "h = c" | "c + hour_us \<le> h" "h < m" "hour_us dvd (h - (c + hour_us))"
        by blast
      then show "h \<in> {h. c \<le> h \<and> h < m \<and> hour_us dvd (h - c)}"
      proof cases
        case 1
        then show ?thesis using True by simp
      next
        case 2
        have "hour_us dvd (h - (c + hour_us) + hour_us)" using 2(3) by (rule dvd_add) simp
        then have "hour_us dvd (h - c)" by (simp add: algebra_simps)
        then show ?thesis using 2 hour_us_pos by simp
      qed
    qed
    then show ?thesis using True "1.IH" [OF True] hour_slots_unfold [of c m] by simp
  next
    case False
    then show ?thesis using hour_slots_unfold [of c m] by auto
  qed
qed

lemma hour_slots_explicit:
  fixes acc :: "int list"
  shows "hour_us dvd (m - c) \<Longrightarrow>
         hour_slots c m [] = map (\<lambda>k. c + int k * hour_us) [0..<nat ((m - c) div hour_us)]"
proof (induction c m acc rule: hour_slots.induct)
  case (1 c m acc)
  from "1.prems" obtain q where q: "m - c = hour_us * q" ..
  have divq: "(m - c) div hour_us = q" using q hour_us_pos by simp
  show ?case
  proof (cases "c < m")
    case True
    then have "0 < hour_us * q" using q by simp
    then have qpos: "0 < q" using hour_us_pos by (simp add: zero_less_mult_iff)
    have next_eq: "m - (c + hour_us) = hour_us * (q - 1)" using q by (simp add: algebra_simps)
    have next_dvd: "hour_us dvd (m - (c + hour_us))" unfolding next_eq by simp
    have divq': "(m - (c + hour_us)) div hour_us = q - 1" unfolding next_eq using hour_us_pos by simp
    have n: "nat q = Suc (nat (q - 1))" using qpos by simp
    have upt: "[0..<Suc (nat (q - 1))] = 0 # map Suc [0..<nat (q - 1)]"
      by (simp only: map_Suc_upt upt_conv_Cons zero_less_Suc)
    have "hour_slots c m [] = c # hour_slots (c + hour_us) m []"
      using True hour_slots_unfold [of c m] by simp
    also have "hour_slots (c + hour_us) m [] =
        map (\<lambda>k. c + hour_us + int k * hour_us) [0..<nat (q - 1)]"
      using "1.IH" [OF True next_dvd] divq' by simp
    also have "c # map (\<lambda>k. c + hour_us + int k * hour_us) [0..<nat (q - 1)]
               = map (\<lambda>k. c + int k * hour_us) [0..<nat q]"
      unfolding n upt by (simp add: comp_def algebra_simps)
    finally show ?thesis using divq by simp
  next
    case False
    then have "hour_us * q \<le> 0" using q by simp
    then have "q \<le> 0" using hour_us_pos by (simp add: mult_le_0_iff)
    then show ?thesis using False divq hour_slots_unfold [of c m] by simp
  qed
qed

lemma last_hour_dvd: "hour_us dvd last_hour"
  by (simp add: last_hour_def hour_us_def)

lemma last_hour_next: "last_hour + hour_us = datetime_max + 1"
  by (simp add: last_hour_def hour_us_def datetime_max_def)

lemma add_hour_ok: "t < m \<Longrightarrow> m \<le> last_hour \<Longrightarrow> add_hour t = Inr (t + hour_us)"
  using last_hour_next by (simp add: add_hour_def)

lemma hour_ceiling_range: "t \<le> last_hour \<Longrightarrow> hour_ceiling t \<le> last_hour"
  by (rule hour_ceiling_least) (simp_all add: last_hour_dvd)

lemma replace_hour_less_iff: "replace_hour t < t \<longleftrightarrow> \<not> hour_us dvd t"
proof -
  have "0 \<le> t mod hour_us" using hour_us_pos by simp
  then have "0 < t mod hour_us \<longleftrightarrow> t mod hour_us \<noteq> 0" by linarith
  then show ?thesis by (simp add: replace_hour_def mod_eq_0_iff_dvd)
qed

lemma round_up_hour_ok: "t \<le> last_hour \<Longrightarrow> round_up_hour t = Inr (hour_ceiling t)"
proof (cases "hour_us dvd t")
  case True
  then have "\<not> replace_hour t < t" by (simp add: replace_hour_less_iff)
  moreover have "replace_hour t = t" using True by (simp add: replace_hour_def mod_eq_0_iff_dvd)
  ultimately show ?thesis using True by (simp add: round_up_hour_def hour_ceiling_def Let_def)
next
  case False
  assume range: "t \<le> last_hour"
  from False have less: "replace_hour t < t" by (simp add: replace_hour_less_iff)
  then have "add_hour (replace_hour t) = Inr (replace_hour t + hour_us)"
    using range by (rule add_hour_ok)
  then show ?thesis using False less by (simp add: round_up_hour_def hour_ceiling_def Let_def)
qed

lemma round_up_hour_overflow:
  assumes late: "last_hour < t" and valid: "t \<le> datetime_max"
  shows "round_up_hour t = Inl OverflowError"
proof -
  have off: "\<not> hour_us dvd t"
  proof
    assume "hour_us dvd t"
    then have "hour_us dvd (t - last_hour)" using last_hour_dvd by (rule dvd_diff)
    moreover have "0 < t - last_hour" using late by simp
    ultimately have "hour_us \<le> t - last_hour" by (rule zdvd_imp_le)
    then show False using valid last_hour_next by simp
  qed
  then have less: "replace_hour t < t" by (simp add: replace_hour_less_iff)
  have "replace_hour last_hour \<le> replace_hour t"
    using late by (intro replace_hour_mono) simp
  moreover have "replace_hour last_hour = last_hour"
    using last_hour_dvd by (simp add: replace_hour_def mod_eq_0_iff_dvd)
  ultimately have "last_hour \<le> replace_hour t" by simp
  then have "replace_hour t + hour_us > datetime_max" using last_hour_next by simp
  then show ?thesis using less by (simp add: round_up_hour_def add_hour_def Let_def)
qed

lemma hours_loop_ok: "m \<le> last_hour \<Longrightarrow> hours_loop c m acc = Inr (hour_slots c m acc)"
proof (induction c m acc rule: hour_slots.induct)
  case (1 c m acc)
  show ?case
  proof (cases "c < m")
    case True
    then have "add_hour c = Inr (c + hour_us)" using "1.prems" by (rule add_hour_ok)
    then have "hours_loop c m acc = hours_loop (c + hour_us) m (acc @ [c])"
      using True hours_loop.simps [of c m acc] by simp
    also have "\<dots> = Inr (hour_slots (c + hour_us) m (acc @ [c]))"
      using "1.IH" [OF True "1.prems"] .
    also have "hour_slots (c + hour_us) m (acc @ [c]) = hour_slots c m acc"
      using True hour_slots.simps [of c m acc] by simp
    finally show ?thesis .
  next
    case False
    then show ?thesis
      using hours_loop.simps [of c m acc] hour_slots.simps [of c m acc] by simp
  qed
qed

lemma mark_hours_ok:
  fixes acc :: "int list"
  shows "e \<le> last_hour \<Longrightarrow>
    mark_hours sh c e d =
      Inr (\<lambda>k. if fst k = s_role sh \<and> snd k \<in> set (hour_slots c e []) then Some sh else d k)"
proof (induction c e acc arbitrary: d rule: hour_slots.induct)
  case (1 c e acc)
  show ?case
  proof (cases "c < e")
    case True
    then have "add_hour c = Inr (c + hour_us)" using "1.prems" by (rule add_hour_ok)
    then have "mark_hours sh c e d =
                 mark_hours sh (c + hour_us) e (d((s_role sh, c) \<mapsto> sh))"
      using True mark_hours.simps [of sh c e d] by simp
    also have "\<dots> = Inr (\<lambda>k. if fst k = s_role sh \<and> snd k \<in> set (hour_slots (c + hour_us) e [])
                             then Some sh else (d((s_role sh, c) \<mapsto> sh)) k)"
      using "1.IH" [OF True "1.prems"] .
    also have "(\<lambda>k. if fst k = s_role sh \<and> snd k \<in> set (hour_slots (c + hour_us) e [])
                     then Some sh else (d((s_role sh, c) \<mapsto> sh)) k)
             = (\<lambda>k. if fst k = s_role sh \<and> snd k \<in> set (hour_slots c e [])
                     then Some sh else d k)"
    proof (rule ext)
      fix k :: "nat \<times> int"
      show "(if fst k = s_role sh \<and> snd k \<in> set (hour_slots (c + hour_us) e [])
             then Some sh else (d((s_role sh, c) \<mapsto> sh)) k)
          = (if fst k = s_role sh \<and> snd k \<in> set (hour_slots c e []) then Some sh else d k)"
        using True hour_slots_unfold [of c e] by (cases k) auto
    qed
    finally show ?thesis .
  next
    case False
    then show ?thesis
      using mark_hours.simps [of sh c e d] hour_slots_unfold [of c e] by simp
  qed
qed

lemma find_SomeD: "find P xs = Some x \<Longrightarrow> x \<in> set xs \<and> P x"
  by (induction xs) (auto split: if_splits)

lemma find_snoc:
  "find P (xs @ [x]) = (case find P xs of Some y \<Rightarrow> Some y | None \<Rightarrow> if P x then Some x else None)"
  by (induction xs) auto

lemma occupant_Cons:
  "occupant (x # xs) k =
     (case occupant xs k of
        Some y \<Rightarrow> Some y
      | None \<Rightarrow> if fst k = s_role x \<and> snd k \<in> set (shift_hours x) then Some x else None)"
  by (simp add: occupant_def find_snoc)

lemma role_hour_shift_loop_ok:
  "\<forall>sh\<in>set xs. end_time sh \<le> last_hour \<Longrightarrow>
   role_hour_shift_loop xs d =
     Inr (\<lambda>k. case occupant xs k of Some sh \<Rightarrow> Some sh | None \<Rightarrow> d k)"
proof (induction xs arbitrary: d)
  case Nil
  then show ?case by (simp add: occupant_def)
next
  case (Cons x xs)
  let ?d1 = "\<lambda>k. if fst k = s_role x \<and> snd k \<in> set (shift_hours x) then Some x else d k"
  from Cons.prems have x: "end_time x \<le> last_hour"
    and rest: "\<forall>sh\<in>set xs. end_time sh \<le> last_hour" by simp_all
  have up: "round_up_hour (end_time x) = Inr (hour_ceiling (end_time x))"
    using x by (rule round_up_hour_ok)
  have "hour_ceiling (end_time x) \<le> last_hour" using x by (rule hour_ceiling_range)
  then have mark: "mark_hours x (replace_hour (start_time x)) (hour_ceiling (end_time x)) d
                     = Inr ?d1"
    by (simp add: mark_hours_ok shift_hours_def)
  have "role_hour_shift_loop (x # xs) d = role_hour_shift_loop xs ?d1"
    by (simp add: up mark)
  also have "\<dots> = Inr (\<lambda>k. case occupant xs k of Some sh \<Rightarrow> Some sh | None \<Rightarrow> ?d1 k)"
    using rest by (rule Cons.IH)
  also have "(\<lambda>k. case occupant xs k of Some sh \<Rightarrow> Some sh | None \<Rightarrow> ?d1 k)
           = (\<lambda>k. case occupant (x # xs) k of Some sh \<Rightarrow> Some sh | None \<Rightarrow> d k)"
  proof (rule ext)
    fix k
    show "(case occupant xs k of Some sh \<Rightarrow> Some sh | None \<Rightarrow> ?d1 k)
        = (case occupant (x # xs) k of Some sh \<Rightarrow> Some sh | None \<Rightarrow> d k)"
      by (cases "occupant xs k") (simp_all add: occupant_Cons)
  qed
  finally show ?case .
qed

lemma role_hour_shift_ok:
  assumes "\<forall>sh\<in>set xs. end_time sh \<le> last_hour"
  shows "role_hour_shift xs = Inr (occupant xs)"
proof -
  have "(\<lambda>k. case occupant xs k of Some sh \<Rightarrow> Some sh | None \<Rightarrow> Map.empty k) = occupant xs"
    by (rule ext) (simp split: option.splits)
  then show ?thesis
    using role_hour_shift_loop_ok [OF assms, of Map.empty] by (simp add: role_hour_shift_def)
qed

lemma occupant_written:
  "occupant xs k = Some sh \<Longrightarrow>
   sh \<in> set xs \<and> fst k = s_role sh \<and> snd k \<in> set (shift_hours sh)"
proof -
  assume "occupant xs k = Some sh"
  then have "sh \<in> set (rev xs) \<and> (fst k = s_role sh \<and> snd k \<in> set (shift_hours sh))"
    unfolding occupant_def by (rule find_SomeD)
  then show ?thesis by simp
qed

lemma occupant_alone:
  assumes sh: "sh \<in> set xs" and h: "h \<in> set (shift_hours sh)" and alone: "alone_in_role xs sh"
  shows "occupant xs (s_role sh, h) = Some sh"
proof (cases "occupant xs (s_role sh, h)")
  case None
  then show ?thesis using sh h by (auto simp: occupant_def find_None_iff)
next
  case (Some other)
  from occupant_written [OF Some]
  have o: "other \<in> set xs" "s_role sh = s_role other" "h \<in> set (shift_hours other)" by simp_all
  have "other = sh"
  proof (rule ccontr)
    assume "other \<noteq> sh"
    with alone o(1,2) have "set (shift_hours other) \<inter> set (shift_hours sh) = {}"
      by (simp add: alone_in_role_def)
    with o(3) h show False by blast
  qed
  then show ?thesis using Some by simp
qed

lemma min_time_Min: "min_time first rest = Min (start_time ` set (first # rest))"
proof -
  have "Min (set (start_time first # map start_time rest)) =
          fold min (map start_time rest) (start_time first)"
    by (rule Min.set_eq_fold)
  then show ?thesis by (simp add: min_time_def)
qed

lemma max_time_Max: "max_time first rest = Max (end_time ` set (first # rest))"
proof -
  have "Max (set (end_time first # map end_time rest)) =
          fold max (map end_time rest) (end_time first)"
    by (rule Max.set_eq_fold)
  then show ?thesis by (simp add: max_time_def)
qed

lemma max_time_bound:
  assumes "\<forall>sh\<in>set (first # rest). end_time sh \<le> b"
  shows "max_time first rest \<le> b"
proof -
  have "Max (end_time ` set (first # rest)) \<in> end_time ` set (first # rest)"
    by (intro Max_in) auto
  then show ?thesis using assms unfolding max_time_Max by auto
qed

lemma max_time_ge:
  assumes "sh \<in> set (first # rest)"
  shows "end_time sh \<le> max_time first rest"
  unfolding max_time_Max using assms by (intro Max_ge) auto

lemma grid_span:
  assumes "sh \<in> set (first # rest)"
  shows "replace_hour (min_time first rest) \<le> replace_hour (start_time sh)
         \<and> hour_ceiling (end_time sh) \<le> hour_ceiling (max_time first rest)"
proof -
  have "min_time first rest \<le> start_time sh"
    unfolding min_time_Min using assms by (intro Min_le) auto
  moreover have "end_time sh \<le> max_time first rest"
    using assms by (rule max_time_ge)
  ultimately show ?thesis by (simp add: replace_hour_mono hour_ceiling_mono)
qed

lemma grid_hours_ok:
  assumes "\<forall>sh\<in>set (first # rest). end_time sh \<le> last_hour"
  shows "grid_hours (first # rest) =
           Inr (hour_slots (replace_hour (min_time first rest))
                  (hour_ceiling (max_time first rest)) [])"
proof -
  have m: "max_time first rest \<le> last_hour" using assms by (rule max_time_bound)
  have "hour_ceiling (max_time first rest) \<le> last_hour" using m by (rule hour_ceiling_range)
  then show ?thesis
    by (simp add: grid_hours_def round_up_hour_ok [OF m] hours_loop_ok)
qed

lemma grid_hours_overflow:
  assumes sh: "sh \<in> set (first # rest)" and late: "last_hour < end_time sh"
    and valid: "\<forall>s\<in>set (first # rest). end_time s \<le> datetime_max"
  shows "grid_hours (first # rest) = Inl OverflowError"
proof -
  have "end_time sh \<le> max_time first rest" using sh by (rule max_time_ge)
  with late have "last_hour < max_time first rest" by simp
  moreover have "max_time first rest \<le> datetime_max" using valid by (rule max_time_bound)
  ultimately have "round_up_hour (max_time first rest) = Inl OverflowError"
    by (rule round_up_hour_overflow)
  then show ?thesis by (simp add: grid_hours_def)
qed

lemma shift_hours_in_grid:
  assumes "sh \<in> set (first # rest)" and "h \<in> set (shift_hours sh)"
  shows "h \<in> set (hour_slots (replace_hour (min_time first rest))
                     (hour_ceiling (max_time first rest)) [])"
proof -
  from assms(2) have h: "replace_hour (start_time sh) \<le> h" "h < hour_ceiling (end_time sh)"
    "hour_us dvd (h - replace_hour (start_time sh))"
    by (simp_all add: shift_hours_def hour_slots_set)
  have "hour_us dvd (h - replace_hour (start_time sh) + replace_hour (start_time sh))"
    using h(3) replace_hour_dvd by (rule dvd_add)
  then have "hour_us dvd h" by simp
  then have "hour_us dvd (h - replace_hour (min_time first rest))"
    using replace_hour_dvd by (rule dvd_diff)
  then show ?thesis
    using h(1,2) grid_span [OF assms(1)] by (simp add: hour_slots_set)
qed

lemma slots_length:
  assumes "replace_hour (start_time sh) \<le> hour_ceiling (end_time sh)"
  shows "(hour_ceiling (end_time sh) - replace_hour (start_time sh)) div hour_us
           = int (length (shift_hours sh))"
proof -
  have d: "hour_us dvd (hour_ceiling (end_time sh) - replace_hour (start_time sh))"
    using hour_ceiling_dvd replace_hour_dvd by (rule dvd_diff)
  have "0 \<le> (hour_ceiling (end_time sh) - replace_hour (start_time sh)) div hour_us"
    using assms hour_us_pos by (simp add: pos_imp_zdiv_nonneg_iff)
  then show ?thesis
    by (simp add: shift_hours_def hour_slots_explicit [OF d])
qed

lemma rowspan_ok:
  "end_time sh \<le> last_hour \<Longrightarrow>
   rowspan sh = Inr ((hour_ceiling (end_time sh) - replace_hour (start_time sh)) div hour_us)"
  by (simp add: rowspan_def round_up_hour_ok)

lemma start_in_shift_hours:
  "replace_hour (start_time sh) < hour_ceiling (end_time sh) \<Longrightarrow>
   replace_hour (start_time sh) \<in> set (shift_hours sh)"
  unfolding shift_hours_def
  by (subst hour_slots_unfold) simp

lemma shift_hours_nonempty:
  assumes "h \<in> set (shift_hours sh)"
  shows "replace_hour (start_time sh) < hour_ceiling (end_time sh)"
  using assms by (simp add: shift_hours_def hour_slots_set)

lemma cell_of_total:
  assumes "\<forall>sh\<in>set xs. end_time sh \<le> last_hour"
  shows "\<exists>c. cell_of (occupant xs) ua h r = Inr c"
proof (cases "occupant xs (role_id r, h)")
  case None
  then show ?thesis by (simp add: cell_of_def)
next
  case (Some sh)
  then have "sh \<in> set xs" using occupant_written by blast
  with assms have "end_time sh \<le> last_hour" by simp
  then show ?thesis using Some by (simp add: cell_of_def rowspan_ok)
qed

lemma cell_of_alone:
  assumes range: "\<forall>s\<in>set xs. end_time s \<le> last_hour"
    and sh: "sh \<in> set xs" and h: "h \<in> set (shift_hours sh)"
    and alone: "alone_in_role xs sh" and r: "role_id r = s_role sh"
  shows "cell_of (occupant xs) ua h r =
           Inr (if h = replace_hour (start_time sh)
                then ShiftStart sh (int (length (shift_hours sh))) (shift_id sh \<in> set ua)
                else ShiftContinue)"
proof -
  have occ: "occupant xs (role_id r, h) = Some sh"
    using occupant_alone [OF sh h alone] r by simp
  have "end_time sh \<le> last_hour" using range sh by simp
  then have "rowspan sh =
      Inr ((hour_ceiling (end_time sh) - replace_hour (start_time sh)) div hour_us)"
    by (rule rowspan_ok)
  moreover have "replace_hour (start_time sh) \<le> hour_ceiling (end_time sh)"
    using shift_hours_nonempty [OF h] by simp
  ultimately have "rowspan sh = Inr (int (length (shift_hours sh)))"
    by (simp add: slots_length)
  then show ?thesis using occ by (simp add: cell_of_def)
qed

lemma start_cell_written:
  "cell_of d ua h r = Inr (ShiftStart sh n b) \<Longrightarrow> d (role_id r, h) = Some sh"
  by (auto simp: cell_of_def split: option.splits if_splits sum.splits)

lemma all_results_ok:
  "\<forall>x\<in>set xs. \<exists>v. f x = Inr v \<Longrightarrow>
   all_results (map f xs) = Inr (map (\<lambda>x. projr (f x)) xs)"
  by (induction xs) auto

lemma grid_row_ok:
  assumes "\<forall>sh\<in>set xs. end_time sh \<le> last_hour"
  shows "grid_row (occupant xs) ua rs h =
           Inr (h, map (\<lambda>r. projr (cell_of (occupant xs) ua h r)) rs)"
proof -
  have "\<forall>r\<in>set rs. \<exists>c. cell_of (occupant xs) ua h r = Inr c"
    using cell_of_total [OF assms] by blast
  then have "all_results (map (cell_of (occupant xs) ua h) rs) =
               Inr (map (\<lambda>r. projr (cell_of (occupant xs) ua h r)) rs)"
    by (rule all_results_ok)
  then show ?thesis by (simp add: grid_row_def)
qed

lemma build_grid_ok:
  assumes range: "\<forall>sh\<in>set (first # rest). end_time sh \<le> last_hour"
  shows "build_grid rs (first # rest) ua =
           Inr (map (\<lambda>h. (h, map (\<lambda>r. projr (cell_of (occupant (first # rest)) ua h r)) rs))
                  (hour_slots (replace_hour (min_time first rest))
                     (hour_ceiling (max_time first rest)) []))"
proof -
  let ?hours = "hour_slots (replace_hour (min_time first rest))
                  (hour_ceiling (max_time first rest)) []"
  let ?row = "grid_row (occupant (first # rest)) ua rs"
  have "\<forall>h\<in>set ?hours. \<exists>v. ?row h = Inr v"
    using grid_row_ok [OF range] by blast
  then have "all_results (map ?row ?hours) = Inr (map (\<lambda>h. projr (?row h)) ?hours)"
    by (rule all_results_ok)
  moreover have "(\<lambda>h. projr (?row h))
               = (\<lambda>h. (h, map (\<lambda>r. projr (cell_of (occupant (first # rest)) ua h r)) rs))"
    by (rule ext) (simp add: grid_row_ok [OF range])
  ultimately show ?thesis
    by (simp add: build_grid_def grid_hours_ok [OF range] role_hour_shift_ok [OF range])
qed

lemma build_grid_overflow:
  assumes sh: "sh \<in> set (first # rest)" and late: "last_hour < end_time sh"
    and valid: "\<forall>s\<in>set (first # rest). end_time s \<le> datetime_max"
  shows "build_grid rs (first # rest) ua = Inl OverflowError"
  by (simp add: build_grid_def grid_hours_overflow [OF sh late valid])

lemma hour_slots_ascending:
  assumes "hour_us dvd (m - c)"
  shows "sorted_wrt (<) (hour_slots c m [])"
  unfolding hour_slots_explicit [OF assms]
  using hour_us_pos by (simp add: sorted_wrt_iff_nth_less)

lemma no_hours:
  "hour_ceiling (end_time sh) \<le> replace_hour (start_time sh) \<Longrightarrow> shift_hours sh = []"
  unfolding shift_hours_def by (subst hour_slots_unfold) simp

lemma one_hour:
  assumes "start_time sh = end_time sh" and "\<not> hour_us dvd start_time sh"
  shows "shift_hours sh = [replace_hour (start_time sh)]"
proof -
  have up: "hour_ceiling (end_time sh) = replace_hour (start_time sh) + hour_us"
    using assms by (simp add: hour_ceiling_def)
  have "hour_slots (replace_hour (start_time sh)) (replace_hour (start_time sh) + hour_us) []
        = [replace_hour (start_time sh)]"
    using hour_us_pos
    by (subst hour_slots_unfold, simp, subst hour_slots_unfold, simp)
  then show ?thesis by (simp add: shift_hours_def up)
qed

lemma example_grid:
  "grid_hours [morning, noon] = Inr [36000000000, 39600000000, 43200000000]
   \<and> build_grid [kitchen] [morning, noon] [] =
       Inr [(36000000000, [ShiftStart morning 2 False]),
            (39600000000, [ShiftContinue]),
            (43200000000, [ShiftStart noon 1 False])]"
  by code_simp

text \<open>
  C6 (amended). For a non-empty list of shifts that all end no later than
  9999-12-31 23:00, the builder returns the hours and the grid: the hours are the hours
  from \<open>min_hour\<close>, the earliest start truncated to the hour, up to but excluding
  \<open>max_hour\<close>, the latest end rounded up to the hour, in ascending order, and the grid has
  one row per hour in that order. A shift that occupies at least one hour and shares none
  of its hours with another shift of its role has, in the column of its role, a
  \<open>shift_start\<close> cell at its truncated start hour whose rowspan is the number of hours
  it occupies, and \<open>shift_continue\<close> cells at its later hours. When a shift ends after
  9999-12-31 23:00, adding the hour raises \<open>OverflowError\<close> and no grid is built. For the
  shifts 10:00 to 12:00 and 12:30 to 13:00 of one role the hours are 10, 11 and 12, the
  first shift starts at 10 with rowspan 2 and continues at 11, and the second starts at
  12 with rowspan 1.
\<close>

theorem grid_rows_and_cells:
  assumes nonempty: "all_shifts = first # rest"
  shows
    "((\<forall>sh\<in>set all_shifts. end_time sh \<le> last_hour) \<longrightarrow>
        (\<exists>hours grid.
            grid_hours all_shifts = Inr hours
          \<and> build_grid rs all_shifts ua = Inr grid
          \<and> hours =
              map (\<lambda>k. replace_hour (Min (start_time ` set all_shifts)) + int k * hour_us)
                [0..<nat ((hour_ceiling (Max (end_time ` set all_shifts))
                            - replace_hour (Min (start_time ` set all_shifts))) div hour_us)]
          \<and> sorted_wrt (<) hours
          \<and> map fst grid = hours
          \<and> (\<forall>sh\<in>set all_shifts.
                replace_hour (start_time sh) < hour_ceiling (end_time sh)
                \<and> alone_in_role all_shifts sh \<longrightarrow>
                  replace_hour (start_time sh) \<in> set (shift_hours sh)
                \<and> rowspan sh = Inr (int (length (shift_hours sh)))
                \<and> (\<forall>h\<in>set (shift_hours sh).
                      \<exists>cells. (h, cells) \<in> set grid \<and> length cells = length rs
                        \<and> (\<forall>i<length rs. role_id (rs ! i) = s_role sh \<longrightarrow>
                              cells ! i =
                                (if h = replace_hour (start_time sh)
                                 then ShiftStart sh (int (length (shift_hours sh)))
                                        (shift_id sh \<in> set ua)
                                 else ShiftContinue))))))
     \<and> ((\<exists>sh\<in>set all_shifts. last_hour < end_time sh)
          \<and> (\<forall>sh\<in>set all_shifts. end_time sh \<le> datetime_max) \<longrightarrow>
            grid_hours all_shifts = Inl OverflowError
          \<and> build_grid rs all_shifts ua = Inl OverflowError)
     \<and> grid_hours [morning, noon] = Inr [36000000000, 39600000000, 43200000000]
     \<and> build_grid [kitchen] [morning, noon] [] =
         Inr [(36000000000, [ShiftStart morning 2 False]),
              (39600000000, [ShiftContinue]),
              (43200000000, [ShiftStart noon 1 False])]"
  (is "?in_range \<and> ?beyond \<and> ?example_hours \<and> ?example_grid")
proof -
  let ?hours = "hour_slots (replace_hour (min_time first rest))
                  (hour_ceiling (max_time first rest)) []"
  let ?cells = "\<lambda>h. map (\<lambda>r. projr (cell_of (occupant all_shifts) ua h r)) rs"
  let ?grid = "map (\<lambda>h. (h, ?cells h)) ?hours"
  have a: ?in_range
  proof
    assume range: "\<forall>sh\<in>set all_shifts. end_time sh \<le> last_hour"
    then have range': "\<forall>sh\<in>set (first # rest). end_time sh \<le> last_hour"
      unfolding nonempty .
    have gh: "grid_hours all_shifts = Inr ?hours"
      unfolding nonempty by (rule grid_hours_ok [OF range'])
    have bg: "build_grid rs all_shifts ua = Inr ?grid"
      unfolding nonempty by (rule build_grid_ok [OF range'])
    have d: "hour_us dvd (hour_ceiling (max_time first rest) - replace_hour (min_time first rest))"
      using hour_ceiling_dvd replace_hour_dvd by (rule dvd_diff)
    have ex: "?hours =
        map (\<lambda>k. replace_hour (Min (start_time ` set all_shifts)) + int k * hour_us)
          [0..<nat ((hour_ceiling (Max (end_time ` set all_shifts))
                      - replace_hour (Min (start_time ` set all_shifts))) div hour_us)]"
      unfolding nonempty min_time_Min [symmetric] max_time_Max [symmetric]
      by (rule hour_slots_explicit [OF d])
    have asc: "sorted_wrt (<) ?hours" by (rule hour_slots_ascending [OF d])
    have rows: "map fst ?grid = ?hours" by (simp add: comp_def)
    have cells: "\<forall>sh\<in>set all_shifts.
                replace_hour (start_time sh) < hour_ceiling (end_time sh)
                \<and> alone_in_role all_shifts sh \<longrightarrow>
                  replace_hour (start_time sh) \<in> set (shift_hours sh)
                \<and> rowspan sh = Inr (int (length (shift_hours sh)))
                \<and> (\<forall>h\<in>set (shift_hours sh).
                      \<exists>cells. (h, cells) \<in> set ?grid \<and> length cells = length rs
                        \<and> (\<forall>i<length rs. role_id (rs ! i) = s_role sh \<longrightarrow>
                              cells ! i =
                                (if h = replace_hour (start_time sh)
                                 then ShiftStart sh (int (length (shift_hours sh)))
                                        (shift_id sh \<in> set ua)
                                 else ShiftContinue)))"
    proof (intro ballI impI)
      fix sh
      assume sh: "sh \<in> set all_shifts"
        and c: "replace_hour (start_time sh) < hour_ceiling (end_time sh)
                \<and> alone_in_role all_shifts sh"
      from c have alone: "alone_in_role all_shifts sh" by simp
      have started: "replace_hour (start_time sh) \<in> set (shift_hours sh)"
        using c by (simp add: start_in_shift_hours)
      have "end_time sh \<le> last_hour" using range sh by simp
      then have span: "rowspan sh = Inr (int (length (shift_hours sh)))"
        using c by (simp add: rowspan_ok slots_length)
      have each: "\<forall>h\<in>set (shift_hours sh).
                      \<exists>cells. (h, cells) \<in> set ?grid \<and> length cells = length rs
                        \<and> (\<forall>i<length rs. role_id (rs ! i) = s_role sh \<longrightarrow>
                              cells ! i =
                                (if h = replace_hour (start_time sh)
                                 then ShiftStart sh (int (length (shift_hours sh)))
                                        (shift_id sh \<in> set ua)
                                 else ShiftContinue))"
      proof
        fix h assume h: "h \<in> set (shift_hours sh)"
        have "h \<in> set ?hours"
          using shift_hours_in_grid sh h unfolding nonempty by blast
        then have row: "(h, ?cells h) \<in> set ?grid" by (simp add: image_iff)
        have len: "length (?cells h) = length rs" by simp
        have col: "\<forall>i<length rs. role_id (rs ! i) = s_role sh \<longrightarrow>
                     ?cells h ! i =
                       (if h = replace_hour (start_time sh)
                        then ShiftStart sh (int (length (shift_hours sh)))
                               (shift_id sh \<in> set ua)
                        else ShiftContinue)"
        proof (intro allI impI)
          fix i assume i: "i < length rs" and r: "role_id (rs ! i) = s_role sh"
          show "?cells h ! i =
                       (if h = replace_hour (start_time sh)
                        then ShiftStart sh (int (length (shift_hours sh)))
                               (shift_id sh \<in> set ua)
                        else ShiftContinue)"
            using i cell_of_alone [OF range sh h alone r, of ua] by simp
        qed
        from row len col
        show "\<exists>cells. (h, cells) \<in> set ?grid \<and> length cells = length rs
                        \<and> (\<forall>i<length rs. role_id (rs ! i) = s_role sh \<longrightarrow>
                              cells ! i =
                                (if h = replace_hour (start_time sh)
                                 then ShiftStart sh (int (length (shift_hours sh)))
                                        (shift_id sh \<in> set ua)
                                 else ShiftContinue))"
          by (intro exI [of _ "?cells h"] conjI)
      qed
      from started span each
      show "replace_hour (start_time sh) \<in> set (shift_hours sh)
                \<and> rowspan sh = Inr (int (length (shift_hours sh)))
                \<and> (\<forall>h\<in>set (shift_hours sh).
                      \<exists>cells. (h, cells) \<in> set ?grid \<and> length cells = length rs
                        \<and> (\<forall>i<length rs. role_id (rs ! i) = s_role sh \<longrightarrow>
                              cells ! i =
                                (if h = replace_hour (start_time sh)
                                 then ShiftStart sh (int (length (shift_hours sh)))
                                        (shift_id sh \<in> set ua)
                                 else ShiftContinue)))"
        by (intro conjI)
    qed
    from gh bg ex asc rows cells
    show "\<exists>hours grid.
            grid_hours all_shifts = Inr hours
          \<and> build_grid rs all_shifts ua = Inr grid
          \<and> hours =
              map (\<lambda>k. replace_hour (Min (start_time ` set all_shifts)) + int k * hour_us)
                [0..<nat ((hour_ceiling (Max (end_time ` set all_shifts))
                            - replace_hour (Min (start_time ` set all_shifts))) div hour_us)]
          \<and> sorted_wrt (<) hours
          \<and> map fst grid = hours
          \<and> (\<forall>sh\<in>set all_shifts.
                replace_hour (start_time sh) < hour_ceiling (end_time sh)
                \<and> alone_in_role all_shifts sh \<longrightarrow>
                  replace_hour (start_time sh) \<in> set (shift_hours sh)
                \<and> rowspan sh = Inr (int (length (shift_hours sh)))
                \<and> (\<forall>h\<in>set (shift_hours sh).
                      \<exists>cells. (h, cells) \<in> set grid \<and> length cells = length rs
                        \<and> (\<forall>i<length rs. role_id (rs ! i) = s_role sh \<longrightarrow>
                              cells ! i =
                                (if h = replace_hour (start_time sh)
                                 then ShiftStart sh (int (length (shift_hours sh)))
                                        (shift_id sh \<in> set ua)
                                 else ShiftContinue))))"
      by (intro exI [of _ ?hours] exI [of _ ?grid] conjI)
  qed
  have b: ?beyond
  proof
    assume late: "(\<exists>sh\<in>set all_shifts. last_hour < end_time sh)
          \<and> (\<forall>sh\<in>set all_shifts. end_time sh \<le> datetime_max)"
    then obtain sh where sh: "sh \<in> set (first # rest)" and l: "last_hour < end_time sh"
      unfolding nonempty by blast
    from late have valid: "\<forall>s\<in>set (first # rest). end_time s \<le> datetime_max"
      unfolding nonempty by simp
    show "grid_hours all_shifts = Inl OverflowError
          \<and> build_grid rs all_shifts ua = Inl OverflowError"
      unfolding nonempty
      using grid_hours_overflow [OF sh l valid] build_grid_overflow [OF sh l valid] by simp
  qed
  from example_grid have c: ?example_hours and d: ?example_grid by simp_all
  show ?thesis by (intro conjI a b c d)
qed

theorem grid_rows_and_cells_witness:
  "[morning, noon] = morning # [noon]
   \<and> end_time morning \<le> last_hour \<and> end_time noon \<le> last_hour
   \<and> morning \<in> set [morning, noon]
   \<and> replace_hour (start_time morning) < hour_ceiling (end_time morning)
   \<and> alone_in_role [morning, noon] morning
   \<and> role_id ([kitchen] ! 0) = s_role morning
   \<and> shift_hours morning = [36000000000, 39600000000]
   \<and> rowspan morning = Inr 2
   \<and> grid_hours [morning, noon] = Inr [36000000000, 39600000000, 43200000000]
   \<and> (\<exists>grid. build_grid [kitchen] [morning, noon] [] = Inr grid
          \<and> map fst grid = [36000000000, 39600000000, 43200000000]
          \<and> (\<exists>cells. (36000000000, cells) \<in> set grid
                \<and> cells ! 0 = ShiftStart morning 2 False)
          \<and> (\<exists>cells. (39600000000, cells) \<in> set grid \<and> cells ! 0 = ShiftContinue))
   \<and> [year_end] = year_end # [] \<and> year_end \<in> set [year_end]
   \<and> last_hour < end_time year_end \<and> end_time year_end \<le> datetime_max
   \<and> build_grid [kitchen] [year_end] [] = Inl OverflowError"
proof -
  have e1: "end_time morning \<le> last_hour" by code_simp
  have e2: "end_time noon \<le> last_hour" by code_simp
  have range: "\<forall>sh\<in>set [morning, noon]. end_time sh \<le> last_hour" using e1 e2 by simp
  have a: "morning \<in> set [morning, noon]" by simp
  have c: "role_id ([kitchen] ! 0) = s_role morning" by code_simp
  have d: "replace_hour (start_time morning) < hour_ceiling (end_time morning)" by code_simp
  have hm: "shift_hours morning = [36000000000, 39600000000]" by code_simp
  have hn: "shift_hours noon = [43200000000]" by code_simp
  have e: "alone_in_role [morning, noon] morning"
    by (simp add: alone_in_role_def hm hn)
  have st: "replace_hour (start_time morning) = 36000000000" by code_simp
  note t = grid_rows_and_cells [of "[morning, noon]" morning "[noon]" "[kitchen]" "[]", OF refl]
  from t range obtain hours grid where gh: "grid_hours [morning, noon] = Inr hours"
    and bg: "build_grid [kitchen] [morning, noon] [] = Inr grid"
    and rows: "map fst grid = hours"
    and cells: "\<forall>sh\<in>set [morning, noon].
                replace_hour (start_time sh) < hour_ceiling (end_time sh)
                \<and> alone_in_role [morning, noon] sh \<longrightarrow>
                  replace_hour (start_time sh) \<in> set (shift_hours sh)
                \<and> rowspan sh = Inr (int (length (shift_hours sh)))
                \<and> (\<forall>h\<in>set (shift_hours sh).
                      \<exists>cells. (h, cells) \<in> set grid \<and> length cells = length [kitchen]
                        \<and> (\<forall>i<length [kitchen]. role_id ([kitchen] ! i) = s_role sh \<longrightarrow>
                              cells ! i =
                                (if h = replace_hour (start_time sh)
                                 then ShiftStart sh (int (length (shift_hours sh)))
                                        (shift_id sh \<in> set [])
                                 else ShiftContinue)))"
    by blast
  from t have ex: "grid_hours [morning, noon] = Inr [36000000000, 39600000000, 43200000000]"
    by blast
  from gh ex rows have rows': "map fst grid = [36000000000, 39600000000, 43200000000]" by simp
  from cells [rule_format, OF a] d e
  have span: "rowspan morning = Inr (int (length (shift_hours morning)))"
    and each: "\<forall>h\<in>set (shift_hours morning).
                      \<exists>cells. (h, cells) \<in> set grid \<and> length cells = length [kitchen]
                        \<and> (\<forall>i<length [kitchen]. role_id ([kitchen] ! i) = s_role morning \<longrightarrow>
                              cells ! i =
                                (if h = replace_hour (start_time morning)
                                 then ShiftStart morning (int (length (shift_hours morning)))
                                        (shift_id morning \<in> set [])
                                 else ShiftContinue))"
    by blast+
  have two: "rowspan morning = Inr 2" using span hm by simp
  have zero: "0 < length [kitchen]" by simp
  have in10: "36000000000 \<in> set (shift_hours morning)"
    and in11: "39600000000 \<in> set (shift_hours morning)"
    using hm by simp_all
  from each [rule_format, OF in10] obtain c10 where r10: "(36000000000, c10) \<in> set grid"
    and v10: "\<forall>i<length [kitchen]. role_id ([kitchen] ! i) = s_role morning \<longrightarrow>
                c10 ! i =
                  (if 36000000000 = replace_hour (start_time morning)
                   then ShiftStart morning (int (length (shift_hours morning)))
                          (shift_id morning \<in> set [])
                   else ShiftContinue)"
    by blast
  from each [rule_format, OF in11] obtain c11 where r11: "(39600000000, c11) \<in> set grid"
    and v11: "\<forall>i<length [kitchen]. role_id ([kitchen] ! i) = s_role morning \<longrightarrow>
                c11 ! i =
                  (if 39600000000 = replace_hour (start_time morning)
                   then ShiftStart morning (int (length (shift_hours morning)))
                          (shift_id morning \<in> set [])
                   else ShiftContinue)"
    by blast
  have s10: "c10 ! 0 = ShiftStart morning 2 False"
    using v10 [rule_format, OF zero c] hm st by simp
  have s11: "c11 ! 0 = ShiftContinue"
    using v11 [rule_format, OF zero c] st by simp
  have built: "\<exists>grid. build_grid [kitchen] [morning, noon] [] = Inr grid
          \<and> map fst grid = [36000000000, 39600000000, 43200000000]
          \<and> (\<exists>cells. (36000000000, cells) \<in> set grid
                \<and> cells ! 0 = ShiftStart morning 2 False)
          \<and> (\<exists>cells. (39600000000, cells) \<in> set grid \<and> cells ! 0 = ShiftContinue)"
  proof (intro exI [of _ grid] conjI)
    show "build_grid [kitchen] [morning, noon] [] = Inr grid" by (rule bg)
    show "map fst grid = [36000000000, 39600000000, 43200000000]" by (rule rows')
    from r10 s10
    show "\<exists>cells. (36000000000, cells) \<in> set grid \<and> cells ! 0 = ShiftStart morning 2 False"
      by (intro exI [of _ c10] conjI)
    from r11 s11
    show "\<exists>cells. (39600000000, cells) \<in> set grid \<and> cells ! 0 = ShiftContinue"
      by (intro exI [of _ c11] conjI)
  qed
  have y1: "year_end \<in> set [year_end]" by simp
  have y2: "last_hour < end_time year_end" by code_simp
  have y3: "end_time year_end \<le> datetime_max" by code_simp
  have late: "(\<exists>sh\<in>set [year_end]. last_hour < end_time sh)
          \<and> (\<forall>sh\<in>set [year_end]. end_time sh \<le> datetime_max)"
    using y2 y3 by simp
  note u = grid_rows_and_cells [of "[year_end]" year_end "[]" "[kitchen]" "[]", OF refl]
  from u late have over: "build_grid [kitchen] [year_end] [] = Inl OverflowError" by blast
  have l1: "[morning, noon] = morning # [noon]" and l2: "[year_end] = year_end # []"
    by simp_all
  show ?thesis
    by (intro conjI) (fact l1 e1 e2 a d e c hm two ex built l2 y1 y2 y3 over)+
qed

text \<open>
  A shift from 15:00 to 15:00 beside the morning shift: the grid runs from 10 to 14 and
  has no cell for it, at its truncated start hour or anywhere else.
\<close>

theorem grid_rows_and_cells_counterexample:
  "pause \<in> set [morning, pause]
   \<and> role_id kitchen = s_role pause
   \<and> end_time morning \<le> last_hour \<and> end_time pause \<le> last_hour
   \<and> replace_hour (start_time pause) = 54000000000
   \<and> build_grid [kitchen] [morning, pause] [] =
       Inr [(36000000000, [ShiftStart morning 2 False]),
            (39600000000, [ShiftContinue]),
            (43200000000, [Empty]),
            (46800000000, [Empty]),
            (50400000000, [Empty])]"
  by code_simp

text \<open>
  C9 (amended). Among shifts that all end no later than 9999-12-31 23:00, a shift whose
  end rounded up to the hour is not after its start truncated to the hour occupies no
  hour: no key of the dictionary maps to it, so it is neither the \<open>shift_start\<close> nor a
  \<open>shift_continue\<close> of any cell, and no row has a \<open>shift_start\<close> cell carrying it. Its
  times still bound the grid: the first hour is at most its truncated start and the end
  of the grid at least its rounded-up end. A shift whose start equals its end off the
  hour occupies exactly its truncated hour, with rowspan 1, and is rendered there when
  no other shift of its role occupies that hour.
\<close>

theorem empty_span_shift_has_no_cell:
  assumes nonempty: "all_shifts = first # rest" and sh: "sh \<in> set all_shifts"
    and range: "\<forall>s\<in>set all_shifts. end_time s \<le> last_hour"
  shows
    "\<exists>d hours grid.
        role_hour_shift all_shifts = Inr d
      \<and> grid_hours all_shifts = Inr hours
      \<and> build_grid rs all_shifts ua = Inr grid
      \<and> hours = hour_slots (replace_hour (min_time first rest))
                  (hour_ceiling (max_time first rest)) []
      \<and> (hour_ceiling (end_time sh) \<le> replace_hour (start_time sh) \<longrightarrow>
            shift_hours sh = []
          \<and> (\<forall>k. d k \<noteq> Some sh)
          \<and> (\<forall>row\<in>set grid. \<forall>n b. ShiftStart sh n b \<notin> set (snd row)))
      \<and> replace_hour (min_time first rest) \<le> replace_hour (start_time sh)
      \<and> hour_ceiling (end_time sh) \<le> hour_ceiling (max_time first rest)
      \<and> (start_time sh = end_time sh \<and> \<not> hour_us dvd start_time sh \<longrightarrow>
            shift_hours sh = [replace_hour (start_time sh)]
          \<and> rowspan sh = Inr 1
          \<and> (alone_in_role all_shifts sh \<longrightarrow>
                (\<exists>cells. (replace_hour (start_time sh), cells) \<in> set grid
                    \<and> length cells = length rs
                    \<and> (\<forall>i<length rs. role_id (rs ! i) = s_role sh \<longrightarrow>
                          cells ! i = ShiftStart sh 1 (shift_id sh \<in> set ua)))))"
proof -
  let ?hours = "hour_slots (replace_hour (min_time first rest))
                  (hour_ceiling (max_time first rest)) []"
  let ?cells = "\<lambda>h. map (\<lambda>r. projr (cell_of (occupant all_shifts) ua h r)) rs"
  let ?grid = "map (\<lambda>h. (h, ?cells h)) ?hours"
  from range have range': "\<forall>s\<in>set (first # rest). end_time s \<le> last_hour"
    unfolding nonempty .
  have d: "role_hour_shift all_shifts = Inr (occupant all_shifts)"
    using range by (rule role_hour_shift_ok)
  have gh: "grid_hours all_shifts = Inr ?hours"
    unfolding nonempty by (rule grid_hours_ok [OF range'])
  have bg: "build_grid rs all_shifts ua = Inr ?grid"
    unfolding nonempty by (rule build_grid_ok [OF range'])
  have empty: "hour_ceiling (end_time sh) \<le> replace_hour (start_time sh) \<longrightarrow>
            shift_hours sh = []
          \<and> (\<forall>k. occupant all_shifts k \<noteq> Some sh)
          \<and> (\<forall>row\<in>set ?grid. \<forall>n b. ShiftStart sh n b \<notin> set (snd row))"
  proof (intro impI conjI)
    assume "hour_ceiling (end_time sh) \<le> replace_hour (start_time sh)"
    then show none: "shift_hours sh = []" by (rule no_hours)
    show unwritten: "\<forall>k. occupant all_shifts k \<noteq> Some sh"
    proof (intro allI notI)
      fix k assume "occupant all_shifts k = Some sh"
      then have "snd k \<in> set (shift_hours sh)" using occupant_written by blast
      then show False using none by simp
    qed
    show "\<forall>row\<in>set ?grid. \<forall>n b. ShiftStart sh n b \<notin> set (snd row)"
    proof (intro ballI allI notI)
      fix row n b
      assume "row \<in> set ?grid" and "ShiftStart sh n b \<in> set (snd row)"
      then obtain h r where c: "projr (cell_of (occupant all_shifts) ua h r) = ShiftStart sh n b"
        by auto
      obtain v where v: "cell_of (occupant all_shifts) ua h r = Inr v"
        using cell_of_total [OF range] by blast
      with c have "cell_of (occupant all_shifts) ua h r = Inr (ShiftStart sh n b)" by simp
      then have "occupant all_shifts (role_id r, h) = Some sh"
        by (rule start_cell_written)
      then show False using unwritten by simp
    qed
  qed
  have lo: "replace_hour (min_time first rest) \<le> replace_hour (start_time sh)"
    using grid_span sh unfolding nonempty by blast
  have hi: "hour_ceiling (end_time sh) \<le> hour_ceiling (max_time first rest)"
    using grid_span sh unfolding nonempty by blast
  have instant: "start_time sh = end_time sh \<and> \<not> hour_us dvd start_time sh \<longrightarrow>
            shift_hours sh = [replace_hour (start_time sh)]
          \<and> rowspan sh = Inr 1
          \<and> (alone_in_role all_shifts sh \<longrightarrow>
                (\<exists>cells. (replace_hour (start_time sh), cells) \<in> set ?grid
                    \<and> length cells = length rs
                    \<and> (\<forall>i<length rs. role_id (rs ! i) = s_role sh \<longrightarrow>
                          cells ! i = ShiftStart sh 1 (shift_id sh \<in> set ua))))"
  proof (intro impI conjI)
    assume z: "start_time sh = end_time sh \<and> \<not> hour_us dvd start_time sh"
    then show hs: "shift_hours sh = [replace_hour (start_time sh)]" using one_hour by blast
    then have h: "replace_hour (start_time sh) \<in> set (shift_hours sh)" by simp
    have "end_time sh \<le> last_hour" using range sh by simp
    then show "rowspan sh = Inr 1"
      using shift_hours_nonempty [OF h] hs by (simp add: rowspan_ok slots_length)
    assume alone: "alone_in_role all_shifts sh"
    have "replace_hour (start_time sh) \<in> set ?hours"
      using shift_hours_in_grid sh h unfolding nonempty by blast
    then have row: "(replace_hour (start_time sh), ?cells (replace_hour (start_time sh)))
                      \<in> set ?grid"
      by (simp add: image_iff)
    have len: "length (?cells (replace_hour (start_time sh))) = length rs" by simp
    have col: "\<forall>i<length rs. role_id (rs ! i) = s_role sh \<longrightarrow>
                 ?cells (replace_hour (start_time sh)) ! i =
                   ShiftStart sh 1 (shift_id sh \<in> set ua)"
    proof (intro allI impI)
      fix i assume i: "i < length rs" and r: "role_id (rs ! i) = s_role sh"
      show "?cells (replace_hour (start_time sh)) ! i =
              ShiftStart sh 1 (shift_id sh \<in> set ua)"
        using i hs cell_of_alone [OF range sh h alone r, of ua] by simp
    qed
    from row len col
    show "\<exists>cells. (replace_hour (start_time sh), cells) \<in> set ?grid
                    \<and> length cells = length rs
                    \<and> (\<forall>i<length rs. role_id (rs ! i) = s_role sh \<longrightarrow>
                          cells ! i = ShiftStart sh 1 (shift_id sh \<in> set ua))"
      by (intro exI [of _ "?cells (replace_hour (start_time sh))"] conjI)
  qed
  from d gh bg empty lo hi instant show ?thesis
    by (intro exI [of _ "occupant all_shifts"] exI [of _ ?hours] exI [of _ ?grid] conjI)
       simp_all
qed

theorem empty_span_shift_has_no_cell_witness:
  "[morning, pause] = morning # [pause] \<and> pause \<in> set [morning, pause]
   \<and> end_time morning \<le> last_hour \<and> end_time pause \<le> last_hour
   \<and> hour_ceiling (end_time pause) \<le> replace_hour (start_time pause)
   \<and> shift_hours pause = []
   \<and> (\<exists>d grid. role_hour_shift [morning, pause] = Inr d
         \<and> build_grid [kitchen] [morning, pause] [] = Inr grid
         \<and> (\<forall>k. d k \<noteq> Some pause)
         \<and> (\<forall>n b. ShiftStart pause n b \<notin> set (concat (map snd grid))))
   \<and> hour_ceiling (end_time pause) \<le> hour_ceiling (max_time morning [pause])
   \<and> grid_hours [morning] = Inr [36000000000, 39600000000]
   \<and> grid_hours [morning, pause] =
        Inr [36000000000, 39600000000, 43200000000, 46800000000, 50400000000]
   \<and> [morning, blink] = morning # [blink] \<and> blink \<in> set [morning, blink]
   \<and> end_time blink \<le> last_hour
   \<and> start_time blink = end_time blink \<and> \<not> hour_us dvd start_time blink
   \<and> alone_in_role [morning, blink] blink
   \<and> role_id ([kitchen] ! 0) = s_role blink
   \<and> shift_hours blink = [50400000000] \<and> rowspan blink = Inr 1
   \<and> (\<exists>grid cells. build_grid [kitchen] [morning, blink] [] = Inr grid
         \<and> (50400000000, cells) \<in> set grid
         \<and> cells ! 0 = ShiftStart blink 1 False)"
proof -
  have e1: "end_time morning \<le> last_hour" by code_simp
  have e2: "end_time pause \<le> last_hour" by code_simp
  have e3: "end_time blink \<le> last_hour" by code_simp
  have range1: "\<forall>s\<in>set [morning, pause]. end_time s \<le> last_hour" using e1 e2 by simp
  have range2: "\<forall>s\<in>set [morning, blink]. end_time s \<le> last_hour" using e1 e3 by simp
  have p1: "pause \<in> set [morning, pause]" by simp
  have p2: "hour_ceiling (end_time pause) \<le> replace_hour (start_time pause)" by code_simp
  note t = empty_span_shift_has_no_cell
             [of "[morning, pause]" morning "[pause]" pause "[kitchen]" "[]", OF refl p1 range1]
  from t p2 obtain d grid where none: "shift_hours pause = []"
    and dict: "role_hour_shift [morning, pause] = Inr d"
    and built: "build_grid [kitchen] [morning, pause] [] = Inr grid"
    and unwritten: "\<forall>k. d k \<noteq> Some pause"
    and nocell: "\<forall>row\<in>set grid. \<forall>n b. ShiftStart pause n b \<notin> set (snd row)"
    and bound: "hour_ceiling (end_time pause) \<le> hour_ceiling (max_time morning [pause])"
    by blast
  have nowhere: "\<forall>n b. ShiftStart pause n b \<notin> set (concat (map snd grid))"
    using nocell by auto
  have absent: "\<exists>d grid. role_hour_shift [morning, pause] = Inr d
         \<and> build_grid [kitchen] [morning, pause] [] = Inr grid
         \<and> (\<forall>k. d k \<noteq> Some pause)
         \<and> (\<forall>n b. ShiftStart pause n b \<notin> set (concat (map snd grid)))"
    using dict built unwritten nowhere by (intro exI [of _ d] exI [of _ grid] conjI)
  have g1: "grid_hours [morning] = Inr [36000000000, 39600000000]" by code_simp
  have g2: "grid_hours [morning, pause] =
        Inr [36000000000, 39600000000, 43200000000, 46800000000, 50400000000]" by code_simp
  have b1: "blink \<in> set [morning, blink]" by simp
  have b2: "start_time blink = end_time blink" by code_simp
  have b2': "\<not> hour_us dvd start_time blink" by code_simp
  have hm: "shift_hours morning = [36000000000, 39600000000]" by code_simp
  have hb: "shift_hours blink = [50400000000]" by code_simp
  have b3: "alone_in_role [morning, blink] blink"
    by (simp add: alone_in_role_def hm hb)
  have r: "role_id ([kitchen] ! 0) = s_role blink" by code_simp
  have zero: "0 < length [kitchen]" by simp
  have st: "replace_hour (start_time blink) = 50400000000" by code_simp
  note u = empty_span_shift_has_no_cell
             [of "[morning, blink]" morning "[blink]" blink "[kitchen]" "[]", OF refl b1 range2]
  from u b2 b2' b3 obtain grid' cells where one: "rowspan blink = Inr 1"
    and built': "build_grid [kitchen] [morning, blink] [] = Inr grid'"
    and row: "(replace_hour (start_time blink), cells) \<in> set grid'"
    and cell: "\<forall>i<length [kitchen]. role_id ([kitchen] ! i) = s_role blink \<longrightarrow>
                 cells ! i = ShiftStart blink 1 (shift_id blink \<in> set [])"
    by blast
  have c: "cells ! 0 = ShiftStart blink 1 False"
    using cell [rule_format, OF zero r] by simp
  have rendered: "\<exists>grid cells. build_grid [kitchen] [morning, blink] [] = Inr grid
         \<and> (50400000000, cells) \<in> set grid
         \<and> cells ! 0 = ShiftStart blink 1 False"
  proof (intro exI [of _ grid'] exI [of _ cells] conjI)
    show "build_grid [kitchen] [morning, blink] [] = Inr grid'" by (rule built')
    show "(50400000000, cells) \<in> set grid'" using row st by simp
    show "cells ! 0 = ShiftStart blink 1 False" by (rule c)
  qed
  have l1: "[morning, pause] = morning # [pause]" and l2: "[morning, blink] = morning # [blink]"
    by simp_all
  show ?thesis
    by (intro conjI)
       (fact l1 p1 e1 e2 p2 none absent bound g1 g2 l2 b1 e3 b2 b2' b3 r hb one rendered)+
qed

text \<open>
  Two shifts of one role, 14:30 to 14:30 and 14:45 to 15:00: both occupy the hour 14,
  the later one is written last, and the only cell of the grid carries it. The shift
  whose start equals its end off the hour has no cell.
\<close>

theorem empty_span_shift_has_no_cell_counterexample:
  "blink \<in> set [blink, quarter]
   \<and> start_time blink = end_time blink \<and> \<not> hour_us dvd start_time blink
   \<and> start_time blink \<le> start_time quarter
   \<and> s_role blink = role_id kitchen \<and> s_role quarter = role_id kitchen
   \<and> end_time blink \<le> last_hour \<and> end_time quarter \<le> last_hour
   \<and> build_grid [kitchen] [blink, quarter] [] =
       Inr [(50400000000, [ShiftStart quarter 1 False])]"
  by code_simp

end
